theory Spec2Isabelle
  imports
    Complex_Main
    "HOL-Library.Char_ord"
    "HOL-Library.List_Lexorder"
    "HOL-Library.Product_Lexorder"
begin

section \<open>Values\<close>

text \<open>
  A pandas cell of a numeric column is a float64: a number, an infinity, or NaN (the
  marker of a missing value, also what a left join leaves in the columns of the right
  table when no row matches).  Every comparison with NaN is false, as in Python.
\<close>

datatype float64 = NaN | NegInf | PosInf | Num real

fun isna :: "float64 \<Rightarrow> bool" where
  "isna NaN = True"
| "isna NegInf = False"
| "isna PosInf = False"
| "isna (Num x) = False"

fun le_f :: "float64 \<Rightarrow> float64 \<Rightarrow> bool" where
  "le_f NaN b = False"
| "le_f a NaN = False"
| "le_f NegInf b = True"
| "le_f a PosInf = True"
| "le_f PosInf b = False"
| "le_f a NegInf = False"
| "le_f (Num a) (Num b) = (a \<le> b)"

fun lt_f :: "float64 \<Rightarrow> float64 \<Rightarrow> bool" where
  "lt_f NaN b = False"
| "lt_f a NaN = False"
| "lt_f PosInf b = False"
| "lt_f a NegInf = False"
| "lt_f NegInf b = True"
| "lt_f a PosInf = True"
| "lt_f (Num a) (Num b) = (a < b)"

text \<open>
  Arithmetic on float64.  A finite result is kept as the exact real (the rounding of a
  result to the nearest double is not modelled); a result beyond the finite range
  overflows to an infinity, as in IEEE 754: the largest finite double is
  \<open>(2^53 - 1) * 2^971\<close>, and a result of magnitude \<open>2^1024 - 2^970\<close> or more rounds to
  infinity.
\<close>

definition max_float :: real where
  "max_float = (2 ^ 53 - 1) * 2 ^ 971"

definition overflow_bound :: real where
  "overflow_bound = 2 ^ 1024 - 2 ^ 970"

definition fl :: "real \<Rightarrow> float64" where
  "fl r =
     (if r \<ge> overflow_bound then PosInf
      else if r \<le> - overflow_bound then NegInf
      else if r > max_float then Num max_float
      else if r < - max_float then Num (- max_float)
      else Num r)"

fun fneg :: "float64 \<Rightarrow> float64" where
  "fneg NaN = NaN"
| "fneg NegInf = PosInf"
| "fneg PosInf = NegInf"
| "fneg (Num a) = Num (- a)"

fun fadd :: "float64 \<Rightarrow> float64 \<Rightarrow> float64" where
  "fadd NaN b = NaN"
| "fadd a NaN = NaN"
| "fadd PosInf NegInf = NaN"
| "fadd NegInf PosInf = NaN"
| "fadd PosInf b = PosInf"
| "fadd a PosInf = PosInf"
| "fadd NegInf b = NegInf"
| "fadd a NegInf = NegInf"
| "fadd (Num a) (Num b) = fl (a + b)"

definition fsub :: "float64 \<Rightarrow> float64 \<Rightarrow> float64" where
  "fsub a b = fadd a (fneg b)"

definition inf_of_sign :: "real \<Rightarrow> float64" where
  "inf_of_sign a = (if a = 0 then NaN else if a > 0 then PosInf else NegInf)"

fun fmul :: "float64 \<Rightarrow> float64 \<Rightarrow> float64" where
  "fmul NaN b = NaN"
| "fmul a NaN = NaN"
| "fmul PosInf PosInf = PosInf"
| "fmul PosInf NegInf = NegInf"
| "fmul NegInf PosInf = NegInf"
| "fmul NegInf NegInf = PosInf"
| "fmul PosInf (Num b) = inf_of_sign b"
| "fmul NegInf (Num b) = inf_of_sign (- b)"
| "fmul (Num a) PosInf = inf_of_sign a"
| "fmul (Num a) NegInf = inf_of_sign (- a)"
| "fmul (Num a) (Num b) = fl (a * b)"

datatype error = IndexError | ValueError | KeyError string | UpstreamFetchError string

section \<open>Status classification\<close>

text \<open>
  The percentile columns of a row of the current-conditions table (the current observation
  left-joined with the statistics table on site and julian day).
\<close>

record band =
  flow10 :: float64
  flow25 :: float64
  flow50 :: float64
  flow75 :: float64
  flow90 :: float64

text \<open>\<open>StreamflowProcessor.determine_status\<close>; the first argument is \<open>row['flow']\<close>.\<close>

definition streamflow_determine_status :: "float64 \<Rightarrow> band \<Rightarrow> string" where
  "streamflow_determine_status flow row =
     (if isna flow then ''unknown''
      else if le_f flow (flow10 row) then ''Extremely Dry''
      else if le_f flow (flow25 row) then ''Very Dry''
      else if lt_f flow (flow50 row) then ''Moderately Dry''
      else if lt_f flow (flow75 row) then ''Moderately Wet''
      else if lt_f flow (flow90 row) then ''Very Wet''
      else ''Extremely Wet'')"

text \<open>\<open>ReservoirDataProcessor.determine_status\<close>; the first argument is
  \<open>row['percent_storage']\<close>.\<close>

definition reservoir_determine_status :: "float64 \<Rightarrow> band \<Rightarrow> string" where
  "reservoir_determine_status percent_storage row =
     (if isna percent_storage then ''unknown''
      else if le_f percent_storage (flow10 row) then ''Extremely Dry''
      else if le_f percent_storage (flow25 row) then ''Very Dry''
      else if lt_f percent_storage (flow50 row) then ''Moderately Dry''
      else if lt_f percent_storage (flow75 row) then ''Moderately Wet''
      else if lt_f percent_storage (flow90 row) then ''Very Wet''
      else ''Extremely Wet'')"

text \<open>\<open>GroundwaterProcessor.determine_status\<close>.\<close>

definition groundwater_determine_status :: "float64 \<Rightarrow> band \<Rightarrow> string" where
  "groundwater_determine_status current stats =
     (if isna current then ''unknown''
      else if le_f current (flow10 stats) then ''Extremely Wet''
      else if le_f current (flow25 stats) then ''Very Wet''
      else if lt_f current (flow50 stats) then ''Moderately Wet''
      else if lt_f current (flow75 stats) then ''Moderately Dry''
      else if lt_f current (flow90 stats) then ''Very Dry''
      else ''Extremely Dry'')"

text \<open>\<open>StreamflowProcessor.get_status_color\<close>: \<open>color_map.get(status, "gray")\<close>.\<close>

definition color_map :: "(string \<times> string) list" where
  "color_map =
     [(''Extremely Dry'', ''darkred''),
      (''Very Dry'', ''red''),
      (''Moderately Dry'', ''orange''),
      (''Moderately Wet'', ''cornflowerblue''),
      (''Very Wet'', ''blue''),
      (''Extremely Wet'', ''navy''),
      (''unknown'', ''gray'')]"

definition get_status_color :: "string \<Rightarrow> string" where
  "get_status_color status =
     (case map_of color_map status of Some c \<Rightarrow> c | None \<Rightarrow> ''gray'')"


definition absent_band :: band where
  "absent_band =
     \<lparr>flow10 = NaN, flow25 = NaN, flow50 = NaN, flow75 = NaN, flow90 = NaN\<rparr>"

text \<open>Exchanging Dry and Wet at each level; \<open>unknown\<close> stays.\<close>

definition swap_dry_wet :: "string \<Rightarrow> string" where
  "swap_dry_wet s =
     (if s = ''Extremely Dry'' then ''Extremely Wet''
      else if s = ''Very Dry'' then ''Very Wet''
      else if s = ''Moderately Dry'' then ''Moderately Wet''
      else if s = ''Moderately Wet'' then ''Moderately Dry''
      else if s = ''Very Wet'' then ''Very Dry''
      else if s = ''Extremely Wet'' then ''Extremely Dry''
      else s)"

section \<open>Percentile bands\<close>

text \<open>Sequencing of computations that may raise.\<close>

definition and_then :: "error + 'a \<Rightarrow> ('a \<Rightarrow> error + 'b) \<Rightarrow> error + 'b" where
  "and_then r f = (case r of Inl e \<Rightarrow> Inl e | Inr x \<Rightarrow> f x)"

fun traverse :: "('a \<Rightarrow> error + 'b) \<Rightarrow> 'a list \<Rightarrow> error + 'b list" where
  "traverse f [] = Inr []"
| "traverse f (x # xs) =
     and_then (f x) (\<lambda>y. and_then (traverse f xs) (\<lambda>ys. Inr (y # ys)))"

text \<open>The cells of a column that are not NaN, as the aggregations with \<open>skipna\<close> see it.\<close>

definition notna :: "float64 list \<Rightarrow> float64 list" where
  "notna x = filter (\<lambda>v. \<not> isna v) x"

text \<open>Sorting an array without NaN, and the smaller and the larger of two cells.\<close>

fun insort_f :: "float64 \<Rightarrow> float64 list \<Rightarrow> float64 list" where
  "insort_f v [] = [v]"
| "insort_f v (w # ws) = (if le_f v w then v # w # ws else w # insort_f v ws)"

definition sort_f :: "float64 list \<Rightarrow> float64 list" where
  "sort_f x = foldr insort_f x []"

definition fmin :: "float64 \<Rightarrow> float64 \<Rightarrow> float64" where
  "fmin a b = (if lt_f b a then b else a)"

definition fmax :: "float64 \<Rightarrow> float64 \<Rightarrow> float64" where
  "fmax a b = (if lt_f a b then b else a)"

text \<open>
  \<open>np.percentile(x, q)\<close> with numpy's default method (\<open>linear\<close>): the array is sorted,
  the virtual index is \<open>(n - 1) * q / 100\<close>, and the result interpolates linearly between
  the order statistics below and above it.  \<open>lerp\<close> is numpy's two-sided formula, in
  float64 arithmetic: the difference \<open>b - a\<close> is computed first and can overflow.
\<close>

definition lerp :: "float64 \<Rightarrow> float64 \<Rightarrow> real \<Rightarrow> float64" where
  "lerp a b t =
     (let diff_b_a = fsub b a in
      if t \<ge> 1 / 2 then fsub b (fmul diff_b_a (Num (1 - t)))
      else fadd a (fmul diff_b_a (Num t)))"

definition percentile_linear :: "float64 list \<Rightarrow> real \<Rightarrow> float64" where
  "percentile_linear x q =
     (let arr = sort_f x;
          n = length arr;
          virtual_index = real (n - 1) * (q / 100);
          above = (virtual_index \<ge> real (n - 1));
          previous = (if above then n - 1 else nat \<lfloor>virtual_index\<rfloor>);
          next = (if above then n - 1 else previous + 1);
          gamma = virtual_index - of_int \<lfloor>virtual_index\<rfloor>
      in lerp (arr ! previous) (arr ! next) gamma)"

text \<open>
  A percentile outside \<open>[0, 100]\<close> is a \<open>ValueError\<close>; an empty array has no order
  statistic to index (a group of a group-by is never empty); an array holding a NaN has
  the percentile NaN.
\<close>

definition np_percentile :: "float64 list \<Rightarrow> real \<Rightarrow> error + float64" where
  "np_percentile x q =
     (if q < 0 \<or> q > 100 then Inl ValueError
      else if x = [] then Inl IndexError
      else if NaN \<in> set x then Inr NaN
      else Inr (percentile_linear x q))"

text \<open>The pandas aggregations \<open>'count'\<close>, \<open>'min'\<close> and \<open>'max'\<close>, which skip NaN.\<close>

definition count_agg :: "float64 list \<Rightarrow> nat" where
  "count_agg x = length (notna x)"

definition min_agg :: "float64 list \<Rightarrow> float64" where
  "min_agg x = (case notna x of [] \<Rightarrow> NaN | v # vs \<Rightarrow> fold fmin vs v)"

definition max_agg :: "float64 list \<Rightarrow> float64" where
  "max_agg x = (case notna x of [] \<Rightarrow> NaN | v # vs \<Rightarrow> fold fmax vs v)"

text \<open>
  One row of a statistics table: the columns \<open>Nobs\<close>, \<open>min\<close>, \<open>flow10\<close>, \<open>flow25\<close>,
  \<open>flow50\<close>, \<open>flow75\<close>, \<open>flow90\<close>, \<open>max\<close>.
\<close>

record agg = band +
  Nobs :: nat
  minv :: float64
  maxv :: float64

text \<open>The list of aggregations that all three domains pass to \<open>.agg\<close>, in its order.\<close>

definition agg_column :: "float64 list \<Rightarrow> error + agg" where
  "agg_column x =
     (let n = count_agg x; lo = min_agg x in
      and_then (np_percentile x 10) (\<lambda>p10.
      and_then (np_percentile x 25) (\<lambda>p25.
      and_then (np_percentile x 50) (\<lambda>p50.
      and_then (np_percentile x 75) (\<lambda>p75.
      and_then (np_percentile x 90) (\<lambda>p90.
      Inr \<lparr>flow10 = p10, flow25 = p25, flow50 = p50, flow75 = p75, flow90 = p90,
           Nobs = n, minv = lo, maxv = max_agg x\<rparr>))))))"

text \<open>
  \<open>df.groupby(keys).agg({col: [...]}).reset_index()\<close>: one row per distinct key, in
  ascending key order, aggregating the column over the rows that carry the key.
\<close>

definition groupby_agg ::
  "('r \<Rightarrow> 'k::linorder) \<Rightarrow> ('r \<Rightarrow> float64) \<Rightarrow> 'r list \<Rightarrow> error + ('k \<times> agg) list" where
  "groupby_agg key col df =
     traverse
       (\<lambda>k. and_then (agg_column (map col (filter (\<lambda>r. key r = k) df))) (\<lambda>a. Inr (k, a)))
       (sort (remdups (map key df)))"

text \<open>Calendar dates.\<close>

record date =
  year :: int
  month :: nat
  day :: nat

text \<open>
  A row of the streamflow table: the columns \<open>site\<close>, \<open>date\<close>, \<open>datetime\<close>, \<open>value\<close>,
  \<open>julian\<close>, \<open>year\<close> (written \<open>yr\<close>, the date's field has the name) and \<open>roll_mean\<close>.
  The persisted history carries its timestamps in the column \<open>date\<close>, the fetched records
  carry theirs in \<open>datetime\<close>; \<open>None\<close> is \<open>NaT\<close>, the cell of a row whose table lacks the
  column.
\<close>

record stream_row =
  site :: string
  row_date :: "date option"
  datetime :: "date option"
  "value" :: float64
  julian :: nat
  yr :: int
  roll_mean :: float64

record flow_stats = agg +
  startYr :: int
  endYr :: int

text \<open>\<open>df['site'].unique()\<close>: the distinct values in order of first appearance.\<close>

definition unique :: "'a list \<Rightarrow> 'a list" where
  "unique xs = rev (remdups (rev xs))"

text \<open>\<open>StreamflowProcessor._calculate_flow_statistics\<close>.\<close>

definition with_years :: "int \<Rightarrow> int \<Rightarrow> agg \<Rightarrow> flow_stats" where
  "with_years lo hi a = agg.extend a (flow_stats.fields lo hi)"

definition site_flow_statistics ::
  "stream_row list \<Rightarrow> string \<Rightarrow> error + ((string \<times> nat) \<times> flow_stats) list" where
  "site_flow_statistics df s =
     (let site_data = filter (\<lambda>r. site r = s) df in
      and_then (groupby_agg (\<lambda>r. (site r, julian r)) roll_mean site_data) (\<lambda>site_stats.
      (case map yr site_data of
         [] \<Rightarrow> Inr []
       | y # ys \<Rightarrow>
           Inr (map (\<lambda>(k, a). (k, with_years (fold min ys y) (fold max ys y) a)) site_stats))))"

definition calculate_flow_statistics ::
  "stream_row list \<Rightarrow> error + ((string \<times> nat) \<times> flow_stats) list" where
  "calculate_flow_statistics df =
     and_then (traverse (site_flow_statistics df) (unique (map site df))) (\<lambda>stats.
     if stats = [] then Inl ValueError else Inr (concat stats))"

text \<open>
  The left join of a current observation with a statistics table on \<open>(site, julian)\<close>:
  the percentile columns of the matching row, NaN where no row matches.
\<close>

definition percentile_columns :: "'a band_scheme \<Rightarrow> band" where
  "percentile_columns a =
     \<lparr>flow10 = flow10 a, flow25 = flow25 a, flow50 = flow50 a,
      flow75 = flow75 a, flow90 = flow90 a\<rparr>"

definition merge_left :: "('k \<times> 'a band_scheme) list \<Rightarrow> 'k \<Rightarrow> band" where
  "merge_left stats k =
     (case map_of stats k of None \<Rightarrow> absent_band | Some a \<Rightarrow> percentile_columns a)"

text \<open>
  The groundwater table, with the columns the statistics read: \<open>site\<close>, \<open>date\<close>, \<open>julian\<close>
  and \<open>depth_ft\<close>.
\<close>

record gw_row =
  gw_site :: string
  gw_date :: date
  gw_julian :: nat
  depth_ft :: float64

text \<open>\<open>GroundwaterProcessor.calculate_statistics\<close>.\<close>

definition gw_site_statistics ::
  "gw_row list \<Rightarrow> string \<Rightarrow> error + ((string \<times> nat) \<times> agg) list" where
  "gw_site_statistics df s =
     (let site_data = filter (\<lambda>r. gw_site r = s) df in
      groupby_agg (\<lambda>r. (gw_site r, gw_julian r)) depth_ft site_data)"

definition gw_calculate_statistics ::
  "gw_row list \<Rightarrow> error + ((string \<times> nat) \<times> agg) list" where
  "gw_calculate_statistics df =
     and_then (traverse (gw_site_statistics df) (unique (map gw_site df))) (\<lambda>stats.
     if stats = [] then Inl ValueError else Inr (concat stats))"

text \<open>
  The reservoir table, with the columns the statistics and the merge read: \<open>NIDID\<close>,
  \<open>date\<close>, \<open>julian\<close> and \<open>percentStorage\<close>.
\<close>

record res_row =
  NIDID :: string
  res_date :: date
  res_julian :: nat
  percentStorage :: float64

text \<open>\<open>ReservoirDataProcessor._calculate_statistics\<close>.\<close>

definition res_calculate_statistics ::
  "res_row list \<Rightarrow> error + ((string \<times> nat) \<times> agg) list" where
  "res_calculate_statistics df =
     groupby_agg (\<lambda>r. (NIDID r, res_julian r)) percentStorage df"

text \<open>
  The worked example: five observations of site A on julian day 100, with the values
  5, 10, 15, 20, 25.
\<close>

definition example_row :: "int \<Rightarrow> real \<Rightarrow> stream_row" where
  "example_row y v =
     \<lparr>site = ''siteA'', row_date = Some \<lparr>year = y, month = 4, day = 10\<rparr>, datetime = None,
      value = Num v, julian = 100, yr = y, roll_mean = Num v\<rparr>"

definition example_history :: "stream_row list" where
  "example_history =
     [example_row 2001 5, example_row 2002 10, example_row 2003 15,
      example_row 2005 20, example_row 2006 25]"

text \<open>The ordering of a band that the percentile invariant asks for.\<close>

definition band_ordered :: "'a agg_scheme \<Rightarrow> bool" where
  "band_ordered a =
     (le_f (minv a) (flow10 a) \<and> le_f (flow10 a) (flow25 a) \<and> le_f (flow25 a) (flow50 a)
      \<and> le_f (flow50 a) (flow75 a) \<and> le_f (flow75 a) (flow90 a) \<and> le_f (flow90 a) (maxv a))"

text \<open>
  The core of \<open>StreamflowProcessor._calculate_current_conditions\<close> for one current
  observation: the statistics are left-joined on \<open>(site, julian)\<close> and the row is
  classified.
\<close>

definition band_lookup :: "stream_row list \<Rightarrow> string \<times> nat \<Rightarrow> error + band" where
  "band_lookup df k =
     and_then (calculate_flow_statistics df) (\<lambda>stats. Inr (merge_left stats k))"

definition current_status :: "stream_row list \<Rightarrow> string \<times> nat \<Rightarrow> float64 \<Rightarrow> error + string" where
  "current_status df k flow =
     and_then (band_lookup df k) (\<lambda>row. Inr (streamflow_determine_status flow row))"

text \<open>
  Two small tables for the percentile invariant: one well and one reservoir, each with five
  observations on julian day 10.
\<close>

definition gw_example_row :: "int \<Rightarrow> real \<Rightarrow> gw_row" where
  "gw_example_row y v =
     \<lparr>gw_site = ''W1'', gw_date = \<lparr>year = y, month = 1, day = 10\<rparr>, gw_julian = 10,
      depth_ft = Num v\<rparr>"

definition gw_example :: "gw_row list" where
  "gw_example =
     [gw_example_row 2001 25, gw_example_row 2002 5, gw_example_row 2003 15,
      gw_example_row 2004 10, gw_example_row 2005 20]"

definition res_example_row :: "int \<Rightarrow> real \<Rightarrow> res_row" where
  "res_example_row y v =
     \<lparr>NIDID = ''TX00001'', res_date = \<lparr>year = y, month = 1, day = 10\<rparr>, res_julian = 10,
      percentStorage = Num v\<rparr>"

definition res_example :: "res_row list" where
  "res_example =
     [res_example_row 2001 90, res_example_row 2002 50, res_example_row 2003 70,
      res_example_row 2004 60, res_example_row 2005 80]"

text \<open>
  The interpolation in exact arithmetic, to compare with: numpy's formula over the reals,
  the interpolation at a virtual index on an array that is already sorted, and the
  percentile of a list of reals.
\<close>

definition lerp_exact :: "real \<Rightarrow> real \<Rightarrow> real \<Rightarrow> real" where
  "lerp_exact a b t = (if t \<ge> 1 / 2 then b - (b - a) * (1 - t) else a + (b - a) * t)"

definition interp :: "real list \<Rightarrow> real \<Rightarrow> real" where
  "interp arr h =
     (if h \<ge> real (length arr - 1) then arr ! (length arr - 1)
      else lerp_exact (arr ! nat \<lfloor>h\<rfloor>) (arr ! (nat \<lfloor>h\<rfloor> + 1)) (h - of_int \<lfloor>h\<rfloor>))"

definition percentile_exact :: "real list \<Rightarrow> real \<Rightarrow> real" where
  "percentile_exact xs q = interp (sort xs) (real (length xs - 1) * (q / 100))"

text \<open>
  The finite cells of a column, and the cells that are numbers of magnitude at most half
  the largest finite double: no sum or difference of two of them overflows.
\<close>

fun num_values :: "float64 list \<Rightarrow> real list" where
  "num_values [] = []"
| "num_values (Num v # x) = v # num_values x"
| "num_values (w # x) = num_values x"

fun in_range :: "float64 \<Rightarrow> bool" where
  "in_range (Num v) = (\<bar>v\<bar> \<le> max_float / 2)"
| "in_range w = False"

text \<open>
  A group whose difference overflows: two cells \<open>-2^1023\<close> and one cell \<open>2^1023\<close> of one well
  and day.
\<close>

definition overflow_example :: "gw_row list" where
  "overflow_example =
     [\<lparr>gw_site = ''W1'', gw_date = \<lparr>year = 2001, month = 1, day = 10\<rparr>, gw_julian = 10,
       depth_ft = Num (- (2 ^ 1023))\<rparr>,
      \<lparr>gw_site = ''W1'', gw_date = \<lparr>year = 2002, month = 1, day = 10\<rparr>, gw_julian = 10,
       depth_ft = Num (- (2 ^ 1023))\<rparr>,
      \<lparr>gw_site = ''W1'', gw_date = \<lparr>year = 2003, month = 1, day = 10\<rparr>, gw_julian = 10,
       depth_ft = Num (2 ^ 1023)\<rparr>]"

section \<open>Smoothing\<close>

text \<open>
  \<open>pd.Series(data).rolling(window, min_periods).mean()\<close> first replaces the infinite cells
  by NaN, then keeps a running count and sum of the numbers in the window: entering index
  \<open>i\<close> it removes \<open>values[i - window]\<close> (once the window is full) and adds \<open>values[i]\<close>,
  NaN cells touching neither, and it emits the mean when at least \<open>min_periods\<close> (and at
  least one) numbers are in the window, NaN otherwise.  The running sum and the mean are
  kept as exact reals here: their rounding and the overflow of the sum are not modelled.
\<close>

definition prep_values :: "float64 list \<Rightarrow> float64 list" where
  "prep_values values = map (\<lambda>v. case v of Num r \<Rightarrow> Num r | _ \<Rightarrow> NaN) values"

record roll_state =
  nobs :: nat
  sum_x :: real

definition add_mean :: "float64 \<Rightarrow> roll_state \<Rightarrow> roll_state" where
  "add_mean val st =
     (case val of Num v \<Rightarrow> \<lparr>nobs = nobs st + 1, sum_x = sum_x st + v\<rparr> | _ \<Rightarrow> st)"

definition remove_mean :: "float64 \<Rightarrow> roll_state \<Rightarrow> roll_state" where
  "remove_mean val st =
     (case val of Num v \<Rightarrow> \<lparr>nobs = nobs st - 1, sum_x = sum_x st - v\<rparr> | _ \<Rightarrow> st)"

definition calc_mean :: "nat \<Rightarrow> roll_state \<Rightarrow> float64" where
  "calc_mean minp st =
     (if nobs st \<ge> minp \<and> nobs st > 0 then Num (sum_x st / real (nobs st)) else NaN)"

function roll_mean_from ::
  "float64 list \<Rightarrow> nat \<Rightarrow> nat \<Rightarrow> roll_state \<Rightarrow> nat \<Rightarrow> float64 list" where
  "roll_mean_from values window minp st i =
     (if i < length values then
        (let st1 = (if window \<le> i then remove_mean (values ! (i - window)) st else st);
             st2 = add_mean (values ! i) st1
         in calc_mean minp st2 # roll_mean_from values window minp st2 (i + 1))
      else [])"
  by pat_completeness auto
termination
  by (relation "measure (\<lambda>(values, window, minp, st, i). length values - i)") auto

declare roll_mean_from.simps [simp del]

definition rolling_mean :: "float64 list \<Rightarrow> nat \<Rightarrow> nat \<Rightarrow> float64 list" where
  "rolling_mean values window minp =
     roll_mean_from (prep_values values) window minp \<lparr>nobs = 0, sum_x = 0\<rparr> 0"

text \<open>
  \<open>GlobalSetup.moving_average\<close>.  pandas refuses a window below \<open>min_periods = 1\<close> with a
  \<open>ValueError\<close>.
\<close>

definition moving_average :: "float64 list \<Rightarrow> int \<Rightarrow> error + float64 list" where
  "moving_average data window =
     (if window < 1 then Inl ValueError else Inr (rolling_mean data (nat window) 1))"

section \<open>Calendar\<close>

text \<open>\<open>pd.Timestamp.is_leap_year\<close>: the proleptic Gregorian rule.\<close>

definition is_leap_year :: "int \<Rightarrow> bool" where
  "is_leap_year y = (y mod 4 = 0 \<and> (y mod 100 \<noteq> 0 \<or> y mod 400 = 0))"

definition month_days :: "bool \<Rightarrow> nat \<Rightarrow> nat" where
  "month_days leap m =
     (if m = 2 then (if leap then 29 else 28)
      else if m = 4 \<or> m = 6 \<or> m = 9 \<or> m = 11 then 30
      else 31)"

definition days_in_month :: "int \<Rightarrow> nat \<Rightarrow> nat" where
  "days_in_month y m = month_days (is_leap_year y) m"

definition valid_date :: "date \<Rightarrow> bool" where
  "valid_date dt =
     (1 \<le> month dt \<and> month dt \<le> 12 \<and> 1 \<le> day dt
      \<and> day dt \<le> days_in_month (year dt) (month dt))"

text \<open>\<open>pd.date_range(date(y, 1, 1), date(y, 12, 31))\<close>: every day of the year \<open>y\<close>.\<close>

definition month_dates :: "int \<Rightarrow> nat \<Rightarrow> date list" where
  "month_dates y m =
     map (\<lambda>d. \<lparr>year = y, month = m, day = d\<rparr>) [1..<Suc (days_in_month y m)]"

definition date_range_year :: "int \<Rightarrow> date list" where
  "date_range_year y = concat (map (month_dates y) [1..<13])"

text \<open>\<open>strftime('%m-%d')\<close>: month and day, two decimal digits each.\<close>

definition digit_char :: "nat \<Rightarrow> char" where
  "digit_char n = char_of (48 + n)"

definition two_digits :: "nat \<Rightarrow> string" where
  "two_digits n = [digit_char (n div 10 mod 10), digit_char (n mod 10)]"

definition strftime_md :: "date \<Rightarrow> string" where
  "strftime_md dt = two_digits (month dt) @ ''-'' @ two_digits (day dt)"

text \<open>\<open>Timestamp.dayofyear\<close>: the ordinal day of the year.\<close>

definition dayofyear :: "date \<Rightarrow> nat" where
  "dayofyear dt = sum_list (map (days_in_month (year dt)) [1..<month dt]) + day dt"

text \<open>
  A row of the julian reference table.  The column \<open>julian_index\<close> holds a NaN (in the row
  of February 29), so it is a float column; \<open>julian_index_leap\<close> is an integer column.
\<close>

record julian_row =
  day_month :: string
  julian_index :: float64
  day_month_leap :: string
  julian_index_leap :: int

text \<open>\<open>GlobalSetup.create_julian_reference\<close>.\<close>

definition feb29_entry :: julian_row where
  "feb29_entry =
     \<lparr>day_month = ''02-29'', julian_index = NaN, day_month_leap = ''02-29'',
      julian_index_leap = 60\<rparr>"

definition julian_df_nonleap :: "julian_row list" where
  "julian_df_nonleap =
     (let all_dates = date_range_year 2021;
          md = map strftime_md all_dates;
          ji = [1..<length all_dates + 1]
      in map (\<lambda>(s, i). \<lparr>day_month = s, julian_index = Num (real i), day_month_leap = s,
                        julian_index_leap = int i\<rparr>) (zip md ji))"

definition julian_df_concat :: "julian_row list" where
  "julian_df_concat =
     take 59 julian_df_nonleap @ [feb29_entry] @ drop 59 julian_df_nonleap"

text \<open>
  The assignment \<open>julian_df.loc[60:, 'julian_index_leap'] = range(61, 367)\<close> needs as many
  rows from position 60 on as the range has values; pandas raises a \<open>ValueError\<close> otherwise.
\<close>

definition julian_df_adjusted :: "julian_row list" where
  "julian_df_adjusted =
     take 60 julian_df_concat
     @ map (\<lambda>(r, v). r\<lparr>julian_index_leap := int v\<rparr>) (zip (drop 60 julian_df_concat) [61..<367])"

definition create_julian_reference :: "error + julian_row list" where
  "create_julian_reference =
     (if length (drop 60 julian_df_concat) = length [61..<367::nat]
      then Inr julian_df_adjusted
      else Inl ValueError)"

text \<open>
  \<open>get_julian_day\<close> of \<open>ReservoirDataProcessor._add_julian_dates\<close>: the rows whose month-day
  column equals the date's, then \<open>.iloc[0]\<close> of the index column, which raises an
  \<open>IndexError\<close> on an empty selection.
\<close>

definition iloc0 :: "'a list \<Rightarrow> error + 'a" where
  "iloc0 xs = (case xs of [] \<Rightarrow> Inl IndexError | x # rest \<Rightarrow> Inr x)"

definition lookup_julian :: "julian_row list \<Rightarrow> bool \<Rightarrow> string \<Rightarrow> error + float64" where
  "lookup_julian julian_ref is_leap dm =
     (if is_leap
      then iloc0 (map (\<lambda>r. Num (real_of_int (julian_index_leap r)))
                   (filter (\<lambda>r. day_month_leap r = dm) julian_ref))
      else iloc0 (map julian_index (filter (\<lambda>r. day_month r = dm) julian_ref)))"

definition get_julian_day :: "julian_row list \<Rightarrow> date \<Rightarrow> error + float64" where
  "get_julian_day julian_ref dt =
     lookup_julian julian_ref (is_leap_year (year dt)) (strftime_md dt)"

text \<open>
  The month-day strings of a year, by leap-ness: what \<open>strftime('%m-%d')\<close> makes of
  \<open>date_range_year\<close>.
\<close>

definition md_key :: "nat \<Rightarrow> nat \<Rightarrow> string" where
  "md_key m d = two_digits m @ ''-'' @ two_digits d"

definition month_keys :: "bool \<Rightarrow> nat \<Rightarrow> string list" where
  "month_keys leap m = map (md_key m) [1..<Suc (month_days leap m)]"

definition year_keys :: "bool \<Rightarrow> string list" where
  "year_keys leap = concat (map (month_keys leap) [1..<13])"

text \<open>The days of the year before the first of month \<open>m\<close>.\<close>

definition days_before :: "bool \<Rightarrow> nat \<Rightarrow> nat" where
  "days_before leap m = sum_list (map (month_days leap) [1..<m])"

text \<open>
  The table is built once, when \<open>GlobalSetup\<close> is constructed, and every lookup reads it.
\<close>

definition lookup_in_reference :: "bool \<Rightarrow> string \<Rightarrow> error + float64" where
  "lookup_in_reference is_leap dm =
     and_then create_julian_reference (\<lambda>julian_ref. lookup_julian julian_ref is_leap dm)"

definition julian_day_of :: "date \<Rightarrow> error + float64" where
  "julian_day_of dt =
     and_then create_julian_reference (\<lambda>julian_ref. get_julian_day julian_ref dt)"

section \<open>Updating the streamflow data\<close>

text \<open>
  A record as \<open>_fetch_nwis_data\<close> returns it: the columns \<open>site\<close>, \<open>datetime\<close> and \<open>value\<close>.
\<close>

record fetched_row =
  f_site :: string
  f_datetime :: date
  f_value :: float64

text \<open>
  The web service is a parameter: asked for a site, a start date and an end date it either
  fails (the request, the status check, the decoding or the access to the reply raises) or
  yields the decoded reply.  Of the reply the code reads whether \<open>timeSeries[0]\<close> has a key
  \<open>value\<close>, and the records under \<open>timeSeries[0]['values'][0]['value']\<close>, here with their
  \<open>dateTime\<close> and \<open>value\<close> already parsed.
\<close>

record nwis_reply =
  value_key :: bool
  series_values :: "(date \<times> float64) list"

type_synonym nwis_service = "string \<Rightarrow> date \<Rightarrow> date \<Rightarrow> error + nwis_reply"

text \<open>
  \<open>StreamflowProcessor._fetch_nwis_data\<close>.  Without the key \<open>value\<close> the result is an empty
  table.  With the key and no records the table made of the records has no column
  \<open>dateTime\<close>, and reading it raises a \<open>KeyError\<close>.  An exception is logged and raised again.
\<close>

definition fetch_nwis_data ::
  "nwis_service \<Rightarrow> string \<Rightarrow> date \<Rightarrow> date \<Rightarrow> error + fetched_row list" where
  "fetch_nwis_data service s start_date end_date =
     (case service s start_date end_date of
        Inl e \<Rightarrow> Inl e
      | Inr data \<Rightarrow>
          if value_key data then
            (if series_values data = [] then Inl (KeyError ''dateTime'')
             else Inr (map (\<lambda>(t, v). \<lparr>f_site = s, f_datetime = t, f_value = v\<rparr>)
                         (series_values data)))
          else Inr [])"

text \<open>Dates in calendar order, the later of two dates, and the day after a date.\<close>

definition date_key :: "date \<Rightarrow> int \<times> nat \<times> nat" where
  "date_key dt = (year dt, month dt, day dt)"

definition max_date :: "date \<Rightarrow> date \<Rightarrow> date" where
  "max_date a b = (if date_key a < date_key b then b else a)"

definition next_day :: "date \<Rightarrow> date" where
  "next_day dt =
     (if day dt < days_in_month (year dt) (month dt) then dt\<lparr>day := day dt + 1\<rparr>
      else if month dt < 12 then dt\<lparr>month := month dt + 1, day := 1\<rparr>
      else \<lparr>year = year dt + 1, month = 1, day = 1\<rparr>)"

text \<open>
  The latest date of a site in the history, the maximum of its column \<open>date\<close> over the
  cells that are not \<open>NaT\<close>; \<open>None\<close> is \<open>NaT\<close>, the maximum of no dates.
\<close>

definition last_date :: "stream_row list \<Rightarrow> string \<Rightarrow> date option" where
  "last_date historic_data s =
     (case List.map_filter row_date (filter (\<lambda>r. site r = s) historic_data) of
        [] \<Rightarrow> None
      | d # ds \<Rightarrow> Some (fold max_date ds d))"

text \<open>
  The body of the loop over the sites: the site's data from the day after its last date up
  to today.  \<open>NaT\<close> has no \<open>strftime\<close>: a site without history raises a \<open>ValueError\<close>.
\<close>

definition fetch_site_update ::
  "nwis_service \<Rightarrow> stream_row list \<Rightarrow> date \<Rightarrow> string \<Rightarrow> error + fetched_row list" where
  "fetch_site_update service historic_data today s =
     (case last_date historic_data s of
        None \<Rightarrow> Inl ValueError
      | Some d \<Rightarrow> fetch_nwis_data service s (next_day d) today)"

text \<open>
  \<open>StreamflowProcessor._calculate_rolling_average\<close>: the column \<open>roll_mean\<close>, the moving
  average of \<open>value\<close> within each site, every row receiving the entry of its position in
  its site's group.
\<close>

definition calculate_rolling_average :: "fetched_row list \<Rightarrow> int \<Rightarrow> error + float64 list" where
  "calculate_rolling_average df window =
     traverse
       (\<lambda>i. let x = filter (\<lambda>r. f_site r = f_site (df ! i)) df;
                 k = length (filter (\<lambda>r. f_site r = f_site (df ! i)) (take i df))
             in and_then (moving_average (map f_value x) window) (\<lambda>ma. Inr (ma ! k)))
       [0..<length df]"

text \<open>
  A fetched record as a row of the new data: \<open>julian\<close> is the day of the year of
  \<open>datetime\<close>, \<open>year\<close> its year.  The new data has no column \<open>date\<close>.
\<close>

definition processed_row :: "fetched_row \<Rightarrow> float64 \<Rightarrow> stream_row" where
  "processed_row r m =
     \<lparr>site = f_site r, row_date = None, datetime = Some (f_datetime r), value = f_value r,
      julian = dayofyear (f_datetime r), yr = year (f_datetime r), roll_mean = m\<rparr>"

text \<open>
  \<open>StreamflowProcessor.update_streamflow_data\<close>, up to the statistics: the fetch loop over
  the sites, the processing of the new rows, the combination with the history and the
  statistics of the combined table (the classification of the current conditions and the
  saving of the files follow).  The result is \<open>None\<close> when no site had new data, the
  exception when a step raised: every handler logs the exception and raises it again.
\<close>

record update_result =
  combined_data :: "stream_row list"
  stats_table :: "((string \<times> nat) \<times> flow_stats) list"

definition update_streamflow_data ::
  "nwis_service \<Rightarrow> string list \<Rightarrow> stream_row list \<Rightarrow> date \<Rightarrow> error + update_result option" where
  "update_streamflow_data service sites historic_data today =
     and_then (traverse (fetch_site_update service historic_data today) (unique sites))
       (\<lambda>fetched.
          let new_data = filter (\<lambda>site_data. site_data \<noteq> []) fetched in
          if new_data = [] then Inr None
          else
            (let new_rows = concat new_data in
             and_then (calculate_rolling_average new_rows 7) (\<lambda>roll.
             let combined = historic_data @ map (\<lambda>(r, m). processed_row r m) (zip new_rows roll) in
             and_then (calculate_flow_statistics combined) (\<lambda>st.
             Inr (Some \<lparr>combined_data = combined, stats_table = st\<rparr>)))))"

text \<open>The combined table of a finished run; empty when the run raised or had no new data.\<close>

definition combined_of :: "error + update_result option \<Rightarrow> stream_row list" where
  "combined_of r = (case r of Inr (Some res) \<Rightarrow> combined_data res | _ \<Rightarrow> [])"

section \<open>Fetching the reservoir data\<close>

text \<open>A row of the reservoir site table.\<close>

record site_info =
  Loc_ID :: string
  District :: string
  site_NIDID :: string
  Name :: string

text \<open>\<open>str.contains\<close> for a literal pattern.\<close>

definition contains :: "string \<Rightarrow> string \<Rightarrow> bool" where
  "contains s pat = list_ex (\<lambda>i. take (length pat) (drop i s) = pat) [0..<Suc (length s)]"

text \<open>
  The work on one site is a parameter: the request (\<open>_fetch_reservoir_data\<close>), the
  elevation and the storage table made of the reply and their merge on \<open>date\<close> either raise
  or yield the site's rows, with the columns \<open>date\<close>, \<open>elev_Ft\<close>, \<open>storage_AF\<close> and
  \<open>fstorage_AF\<close>.
\<close>

record reservoir_obs =
  obs_date :: date
  elev_Ft :: float64
  storage_AF :: float64
  fstorage_AF :: float64

record district_row = reservoir_obs +
  locid :: string
  row_district :: string
  row_NIDID :: string
  row_name :: string

type_synonym site_work = "site_info \<Rightarrow> error + reservoir_obs list"

text \<open>
  \<open>ReservoirDataProcessor._fetch_district_data\<close>: the rows of every selected site of the
  district, with the columns \<open>locid\<close>, \<open>district\<close>, \<open>NIDID\<close> and \<open>name\<close> added.  Any exception
  is logged and raised again.  \<open>pd.concat\<close> of no tables raises a \<open>ValueError\<close>.
\<close>

definition site_rows :: "site_info \<Rightarrow> string \<Rightarrow> reservoir_obs list \<Rightarrow> district_row list" where
  "site_rows s district site_data =
     map (\<lambda>r. reservoir_obs.extend r
            (district_row.fields (Loc_ID s) district (site_NIDID s) (Name s))) site_data"

definition fetch_district_data ::
  "site_work \<Rightarrow> site_info list \<Rightarrow> string \<Rightarrow> error + district_row list" where
  "fetch_district_data fetch_site sites district =
     (let district_sites =
            filter (\<lambda>s. District s = district \<and> contains (site_NIDID s) ''TX''
                         \<and> Loc_ID s \<noteq> ''2165051'') sites
      in and_then
           (traverse (\<lambda>s. and_then (fetch_site s) (\<lambda>site_data.
                        Inr (site_rows s district site_data))) district_sites)
           (\<lambda>district_data.
              if district_data = [] then Inl ValueError else Inr (concat district_data)))"

text \<open>
  The first step of \<open>ReservoirDataProcessor.update_reservoir_data\<close>: the new data of the
  three Texas districts.
\<close>

definition tx_districts :: "string list" where
  "tx_districts = [''SWF'', ''SWT'', ''SWG'']"

definition fetch_new_reservoir_data ::
  "site_work \<Rightarrow> site_info list \<Rightarrow> error + district_row list" where
  "fetch_new_reservoir_data fetch_site sites =
     and_then (traverse (fetch_district_data fetch_site sites) tx_districts)
       (\<lambda>frames. Inr (concat frames))"

text \<open>
  \<open>ReservoirDataProcessor._add_julian_dates\<close>: the column \<open>julian\<close>, the lookup of every
  row's date in the julian reference.
\<close>

definition add_julian_dates :: "julian_row list \<Rightarrow> district_row list \<Rightarrow> error + float64 list" where
  "add_julian_dates julian_ref df = traverse (\<lambda>r. get_julian_day julian_ref (obs_date r)) df"

text \<open>
  \<open>ReservoirDataProcessor.update_reservoir_data\<close>.  The new data has the columns \<open>date\<close>,
  \<open>elev_Ft\<close>, \<open>storage_AF\<close>, \<open>fstorage_AF\<close>, \<open>locid\<close>, \<open>district\<close>, \<open>NIDID\<close>, \<open>name\<close> and, from
  \<open>_add_julian_dates\<close>, \<open>year\<close>, \<open>day_month\<close> and \<open>julian\<close>.  The next statement divides
  \<open>new_data['storage_AF']\<close> by \<open>new_data['OT_AF']\<close>: the table has no column \<open>OT_AF\<close>, and
  reading it raises a \<open>KeyError\<close>.  The statements after it (the concatenation of the old and
  the new data, the statistics, the saving) are not reached; every exception is logged and
  raised again.
\<close>

definition update_reservoir_data ::
  "site_work \<Rightarrow> site_info list \<Rightarrow> julian_row list \<Rightarrow> res_row list \<Rightarrow> error + res_row list" where
  "update_reservoir_data fetch_site sites julian_ref old_data =
     and_then (fetch_new_reservoir_data fetch_site sites) (\<lambda>new_data.
     and_then (add_julian_dates julian_ref new_data) (\<lambda>julian_column.
     Inl (KeyError ''OT_AF'')))"

text \<open>
  Two example runs.  In the first the service answers with an observation of a day that
  the history already holds, with another value.  In the second the service fails for the
  first of two sites.
\<close>

definition jan1 :: date where
  "jan1 = \<lparr>year = 2024, month = 1, day = 1\<rparr>"

definition jan2 :: date where
  "jan2 = \<lparr>year = 2024, month = 1, day = 2\<rparr>"

definition dup_history :: "stream_row list" where
  "dup_history =
     [\<lparr>site = ''siteA'', row_date = Some jan1, datetime = None, value = Num 5, julian = 1,
       yr = 2024, roll_mean = Num 7\<rparr>]"

definition dup_service :: nwis_service where
  "dup_service s start_date end_date =
     Inr \<lparr>value_key = True, series_values = [(jan1, Num 7)]\<rparr>"

definition two_site_history :: "stream_row list" where
  "two_site_history =
     [\<lparr>site = ''siteA'', row_date = Some jan1, datetime = None, value = Num 5, julian = 1,
       yr = 2024, roll_mean = Num 5\<rparr>,
      \<lparr>site = ''siteB'', row_date = Some jan1, datetime = None, value = Num 9, julian = 1,
       yr = 2024, roll_mean = Num 9\<rparr>]"

definition failing_service :: nwis_service where
  "failing_service s start_date end_date =
     (if s = ''siteA'' then Inl (UpstreamFetchError ''siteA'')
      else Inr \<lparr>value_key = True, series_values = [(jan2, Num 8)]\<rparr>)"

text \<open>A reservoir site of the district \<open>SWF\<close>, and a site fetch that fails.\<close>

definition canyon_lake :: site_info where
  "canyon_lake =
     \<lparr>Loc_ID = ''1234'', District = ''SWF'', site_NIDID = ''TX00004'', Name = ''Canyon Lake''\<rparr>"

definition failing_site_fetch :: site_work where
  "failing_site_fetch s = Inl (UpstreamFetchError (Loc_ID s))"

section \<open>Properties of the classifier\<close>




lemma swap_dry_wet_classifiers:
  "groundwater_determine_status c b = swap_dry_wet (streamflow_determine_status c b)"
  by (simp add: groundwater_determine_status_def streamflow_determine_status_def
      swap_dry_wet_def)

lemma reservoir_eq_streamflow:
  "reservoir_determine_status c b = streamflow_determine_status c b"
  by (simp add: reservoir_determine_status_def streamflow_determine_status_def)






lemma merge_left_no_row: "merge_left [] k = absent_band"
  by (simp add: merge_left_def)



section \<open>Percentiles are ordered\<close>

lemma lerp_exact_eq: "lerp_exact a b t = a + (b - a) * t"
  by (simp add: lerp_exact_def algebra_simps)

lemma lerp_exact_bounds:
  assumes "a \<le> b" "0 \<le> t" "t \<le> 1"
  shows "a \<le> lerp_exact a b t" and "lerp_exact a b t \<le> b"
proof -
  have "0 \<le> (b - a) * t"
    using assms by simp
  then show "a \<le> lerp_exact a b t"
    by (simp add: lerp_exact_eq)
  have "(b - a) * t \<le> (b - a) * 1"
    using assms by (intro mult_left_mono) simp_all
  then show "lerp_exact a b t \<le> b"
    by (simp add: lerp_exact_eq)
qed

lemma lerp_exact_mono:
  assumes "a \<le> b" "s \<le> t"
  shows "lerp_exact a b s \<le> lerp_exact a b t"
proof -
  have "(b - a) * s \<le> (b - a) * t"
    using assms by (intro mult_left_mono) simp_all
  then show ?thesis
    by (simp add: lerp_exact_eq)
qed

lemma lerp_exact_same: "lerp_exact a a t = a"
  by (simp add: lerp_exact_def)

lemma sort_not_Nil: "xs \<noteq> [] \<Longrightarrow> sort xs \<noteq> []"
  by (metis length_0_conv length_sort)

lemma min_index_less: "0 < n \<Longrightarrow> min i (n - 1) < (n::nat)"
  by arith

lemma interp_bounds:
  assumes "sorted arr" "arr \<noteq> []" "0 \<le> h"
  shows "arr ! min (nat \<lfloor>h\<rfloor>) (length arr - 1) \<le> interp arr h"
    and "interp arr h \<le> arr ! min (nat \<lfloor>h\<rfloor> + 1) (length arr - 1)"
proof -
  let ?n = "length arr"
  let ?i = "nat \<lfloor>h\<rfloor>"
  have both: "arr ! min ?i (?n - 1) \<le> interp arr h
      \<and> interp arr h \<le> arr ! min (?i + 1) (?n - 1)"
  proof (cases "h \<ge> real (?n - 1)")
    case True
    then have "?n - 1 \<le> ?i"
      by (simp add: le_nat_floor)
    then have "min ?i (?n - 1) = ?n - 1" "min (?i + 1) (?n - 1) = ?n - 1"
      by simp_all
    then show ?thesis
      using True by (simp add: interp_def)
  next
    case False
    then have hlt: "h < real (?n - 1)"
      by simp
    have "real ?i \<le> h"
      using assms(3) by simp
    then have "real ?i < real (?n - 1)"
      using hlt by linarith
    then have ilt: "?i < ?n - 1"
      by simp
    then have idx: "min ?i (?n - 1) = ?i" "min (?i + 1) (?n - 1) = ?i + 1"
      by simp_all
    have ab: "arr ! ?i \<le> arr ! (?i + 1)"
      using assms(1) ilt by (intro sorted_nth_mono) simp_all
    have g0: "0 \<le> h - of_int \<lfloor>h\<rfloor>" and g1: "h - of_int \<lfloor>h\<rfloor> \<le> 1"
      by linarith+
    show ?thesis
      using lerp_exact_bounds [OF ab g0 g1] False idx by (simp add: interp_def)
  qed
  show "arr ! min ?i (?n - 1) \<le> interp arr h"
    using both by simp
  show "interp arr h \<le> arr ! min (?i + 1) (?n - 1)"
    using both by simp
qed

lemma interp_mono:
  assumes srt: "sorted arr" and ne: "arr \<noteq> []" and h0: "0 \<le> h1" and le: "h1 \<le> h2"
  shows "interp arr h1 \<le> interp arr h2"
proof -
  let ?n = "length arr"
  let ?i1 = "nat \<lfloor>h1\<rfloor>"
  let ?i2 = "nat \<lfloor>h2\<rfloor>"
  have h20: "0 \<le> h2"
    using h0 le by simp
  have fl: "\<lfloor>h1\<rfloor> \<le> \<lfloor>h2\<rfloor>"
    using le by (rule floor_mono)
  have i12: "?i1 \<le> ?i2"
    using fl by simp
  have npos: "0 < ?n"
    using ne by simp
  show ?thesis
  proof (cases "?i1 = ?i2")
    case same: True
    then have fleq: "\<lfloor>h1\<rfloor> = \<lfloor>h2\<rfloor>"
      using h0 h20 by (metis floor_less_zero int_nat_eq linorder_not_less)
    show ?thesis
    proof (cases "h2 \<ge> real (?n - 1)")
      case True
      have "interp arr h1 \<le> arr ! min (?i1 + 1) (?n - 1)"
        using interp_bounds(2) [OF srt ne h0] .
      also have "\<dots> \<le> arr ! (?n - 1)"
        using srt npos by (intro sorted_nth_mono) simp_all
      also have "\<dots> = interp arr h2"
        using True by (simp add: interp_def)
      finally show ?thesis .
    next
      case False
      then have h1lt: "\<not> h1 \<ge> real (?n - 1)"
        using le by linarith
      have "real ?i2 \<le> h2"
        using h20 by simp
      then have "real ?i2 < real (?n - 1)"
        using False by linarith
      then have ilt: "?i2 < ?n - 1"
        by simp
      have ab: "arr ! ?i2 \<le> arr ! (?i2 + 1)"
        using srt ilt by (intro sorted_nth_mono) simp_all
      have "h1 - of_int \<lfloor>h2\<rfloor> \<le> h2 - of_int \<lfloor>h2\<rfloor>"
        using le by simp
      from lerp_exact_mono [OF ab this] show ?thesis
        using False h1lt same fleq by (simp add: interp_def)
    qed
  next
    case False
    then have lt: "?i1 + 1 \<le> ?i2"
      using i12 by simp
    have "interp arr h1 \<le> arr ! min (?i1 + 1) (?n - 1)"
      using interp_bounds(2) [OF srt ne h0] .
    also have "\<dots> \<le> arr ! min ?i2 (?n - 1)"
      using srt lt min_index_less [OF npos] by (intro sorted_nth_mono) simp_all
    also have "\<dots> \<le> interp arr h2"
      using interp_bounds(1) [OF srt ne h20] .
    finally show ?thesis .
  qed
qed

lemma percentile_exact_mono:
  assumes "xs \<noteq> []" "0 \<le> q1" "q1 \<le> q2"
  shows "percentile_exact xs q1 \<le> percentile_exact xs q2"
proof -
  have "real (length xs - 1) * (q1 / 100) \<le> real (length xs - 1) * (q2 / 100)"
    using assms by (intro mult_left_mono) simp_all
  moreover have "0 \<le> real (length xs - 1) * (q1 / 100)"
    using assms by simp
  moreover have "sorted (sort xs)" "sort xs \<noteq> []"
    using assms by (simp_all add: sort_not_Nil)
  ultimately show ?thesis
    unfolding percentile_exact_def by (intro interp_mono)
qed

lemma fold_min_le:
  fixes v :: real
  assumes "x \<in> set (v # vs)"
  shows "fold min vs v \<le> x"
proof -
  have "fold min vs v = Min (set (v # vs))"
    by (simp only: Min.set_eq_fold)
  then show ?thesis
    using assms by (simp only: ) (rule Min_le, simp, assumption)
qed

lemma fold_max_ge:
  fixes v :: real
  assumes "x \<in> set (v # vs)"
  shows "x \<le> fold max vs v"
proof -
  have "fold max vs v = Max (set (v # vs))"
    by (simp only: Max.set_eq_fold)
  then show ?thesis
    using assms by (simp only: ) (rule Max_ge, simp, assumption)
qed

lemma percentile_exact_in_range:
  assumes ne: "xs \<noteq> []" and q0: "0 \<le> q"
  shows "\<exists>lo \<in> set xs. \<exists>hi \<in> set xs. lo \<le> percentile_exact xs q \<and> percentile_exact xs q \<le> hi"
proof -
  let ?arr = "sort xs"
  let ?h = "real (length xs - 1) * (q / 100)"
  have srt: "sorted ?arr" and ne': "?arr \<noteq> []"
    using ne by (simp_all add: sort_not_Nil)
  have h0: "0 \<le> ?h"
    using q0 by simp
  have n: "0 < length ?arr"
    using ne by simp
  let ?lo = "?arr ! min (nat \<lfloor>?h\<rfloor>) (length ?arr - 1)"
  let ?hi = "?arr ! min (nat \<lfloor>?h\<rfloor> + 1) (length ?arr - 1)"
  have "?lo \<in> set ?arr" "?hi \<in> set ?arr"
    using min_index_less [OF n] by (simp_all only: nth_mem)
  then have "?lo \<in> set xs" "?hi \<in> set xs"
    by simp_all
  moreover have "?lo \<le> percentile_exact xs q" "percentile_exact xs q \<le> ?hi"
    unfolding percentile_exact_def
    using interp_bounds [OF srt ne' h0] by simp_all
  ultimately show ?thesis
    by blast
qed


text \<open>Within the finite range the float64 arithmetic is the exact arithmetic.\<close>

lemma max_float_bounds: "2000 \<le> max_float" "max_float < overflow_bound"
  by (simp_all add: max_float_def overflow_bound_def)

lemma fl_id: "\<bar>r\<bar> \<le> max_float \<Longrightarrow> fl r = Num r"
  using max_float_bounds(2) by (auto simp: fl_def)

lemma in_range_small: "\<bar>r\<bar> \<le> 1000 \<Longrightarrow> in_range (Num r)"
  using max_float_bounds(1) by simp

lemma in_range_cases:
  assumes "in_range v"
  obtains r where "v = Num r" "\<bar>r\<bar> \<le> max_float / 2"
  using assms by (cases v) simp_all

lemma in_range_list:
  assumes "\<forall>v \<in> set x. in_range v"
  shows "x = map Num (num_values x)" and "\<forall>r \<in> set (num_values x). \<bar>r\<bar> \<le> max_float / 2"
  using assms by (induction x rule: num_values.induct) simp_all

lemma notna_in_range: "\<forall>v \<in> set x. in_range v \<Longrightarrow> notna x = x"
  by (induction x rule: num_values.induct) (simp_all add: notna_def)

lemma in_range_not_NaN: "\<forall>v \<in> set x. in_range v \<Longrightarrow> NaN \<notin> set x"
  by auto

lemma insort_f_Num: "insort_f (Num a) (map Num xs) = map Num (insort a xs)"
  by (induction xs) simp_all

lemma sort_f_Num: "sort_f (map Num xs) = map Num (sort xs)"
proof (induction xs)
  case Nil
  show ?case by (simp add: sort_f_def)
next
  case (Cons a xs)
  have "sort_f (map Num (a # xs)) = insort_f (Num a) (sort_f (map Num xs))"
    by (simp add: sort_f_def)
  also have "\<dots> = map Num (insort a (sort xs))"
    by (simp only: Cons.IH insort_f_Num)
  finally show ?case
    by simp
qed

lemma fold_fmin_Num: "fold fmin (map Num vs) (Num v) = Num (fold min vs v)"
proof (induction vs arbitrary: v)
  case Nil
  show ?case by simp
next
  case (Cons w vs)
  have "fmin (Num w) (Num v) = Num (min w v)"
    by (simp add: fmin_def min_def)
  then show ?case
    using Cons.IH [of "min w v"] by simp
qed

lemma fold_fmax_Num: "fold fmax (map Num vs) (Num v) = Num (fold max vs v)"
proof (induction vs arbitrary: v)
  case Nil
  show ?case by simp
next
  case (Cons w vs)
  have "fmax (Num w) (Num v) = Num (max w v)"
    by (simp add: fmax_def max_def)
  then show ?case
    using Cons.IH [of "max w v"] by simp
qed

lemma lerp_Num:
  assumes a: "\<bar>a\<bar> \<le> max_float / 2" and b: "\<bar>b\<bar> \<le> max_float / 2"
    and ab: "a \<le> b" and t0: "0 \<le> t" and t1: "t \<le> 1"
  shows "lerp (Num a) (Num b) t = Num (lerp_exact a b t)"
proof -
  have d: "\<bar>b - a\<bar> \<le> max_float"
    using a b by linarith
  have diff: "fsub (Num b) (Num a) = Num (b - a)"
    using fl_id [OF d] by (simp add: fsub_def)
  have d0: "0 \<le> b - a"
    using ab by simp
  have in_ab: "\<bar>x\<bar> \<le> max_float" if "a \<le> x" "x \<le> b" for x
    using that a b max_float_bounds(1) by linarith
  show ?thesis
  proof (cases "t \<ge> 1 / 2")
    case True
    have "0 \<le> (b - a) * (1 - t)"
      using d0 t1 by simp
    moreover have "(b - a) * (1 - t) \<le> b - a"
      using mult_left_mono [of "1 - t" 1 "b - a"] d0 t0 by simp
    ultimately have p: "\<bar>(b - a) * (1 - t)\<bar> \<le> max_float"
      using d by linarith
    have r: "\<bar>b - (b - a) * (1 - t)\<bar> \<le> max_float"
      using lerp_exact_bounds [OF ab t0 t1] True by (intro in_ab) (simp_all add: lerp_exact_def)
    have prod: "fmul (Num (b - a)) (Num (1 - t)) = Num ((b - a) * (1 - t))"
      using fl_id [OF p] by simp
    have res: "fsub (Num b) (Num ((b - a) * (1 - t))) = Num (b - (b - a) * (1 - t))"
      using fl_id [OF r] by (simp add: fsub_def)
    show ?thesis
      using True by (simp only: lerp_def Let_def diff prod res lerp_exact_def if_True)
  next
    case False
    have "0 \<le> (b - a) * t"
      using d0 t0 by simp
    moreover have "(b - a) * t \<le> b - a"
      using mult_left_mono [of t 1 "b - a"] d0 t1 by simp
    ultimately have p: "\<bar>(b - a) * t\<bar> \<le> max_float"
      using d by linarith
    have r: "\<bar>a + (b - a) * t\<bar> \<le> max_float"
      using lerp_exact_bounds [OF ab t0 t1] False by (intro in_ab) (simp_all add: lerp_exact_def)
    have prod: "fmul (Num (b - a)) (Num t) = Num ((b - a) * t)"
      using fl_id [OF p] by simp
    have res: "fadd (Num a) (Num ((b - a) * t)) = Num (a + (b - a) * t)"
      using fl_id [OF r] by simp
    show ?thesis
      using False by (simp only: lerp_def Let_def diff prod res lerp_exact_def if_False)
  qed
qed

lemma percentile_linear_Num:
  assumes ne: "xs \<noteq> []" and rng: "\<forall>r \<in> set xs. \<bar>r\<bar> \<le> max_float / 2" and q0: "0 \<le> q"
  shows "percentile_linear (map Num xs) q = Num (percentile_exact xs q)"
proof -
  let ?s = "sort xs"
  let ?n = "length xs"
  define h where "h = real (?n - 1) * (q / 100)"
  have srt: "sorted ?s" and len: "length ?s = ?n"
    by simp_all
  have npos: "0 < ?n"
    using ne by simp
  have rng': "\<bar>?s ! i\<bar> \<le> max_float / 2" if "i < ?n" for i
  proof -
    have "?s ! i \<in> set ?s"
      using that by (simp only: nth_mem len)
    then show ?thesis
      using rng by simp
  qed
  have h0: "0 \<le> h"
    using q0 by (simp add: h_def)
  have g: "0 \<le> h - of_int \<lfloor>h\<rfloor>" "h - of_int \<lfloor>h\<rfloor> \<le> 1"
    by linarith+
  have nth_Num: "map Num ?s ! i = Num (?s ! i)" if "i < ?n" for i
    using that by simp
  show ?thesis
  proof (cases "h \<ge> real (?n - 1)")
    case True
    have last: "?n - 1 < ?n"
      using npos by simp
    have pl: "percentile_linear (map Num xs) q
        = lerp (map Num ?s ! (?n - 1)) (map Num ?s ! (?n - 1)) (h - of_int \<lfloor>h\<rfloor>)"
      using True unfolding h_def
      by (simp only: percentile_linear_def Let_def sort_f_Num length_map len if_True)
    have pe: "percentile_exact xs q = ?s ! (?n - 1)"
      using True unfolding h_def by (simp only: percentile_exact_def interp_def len if_True)
    have "lerp (Num (?s ! (?n - 1))) (Num (?s ! (?n - 1))) (h - of_int \<lfloor>h\<rfloor>)
        = Num (lerp_exact (?s ! (?n - 1)) (?s ! (?n - 1)) (h - of_int \<lfloor>h\<rfloor>))"
      by (intro lerp_Num rng' last order_refl g)
    then show ?thesis
      by (simp only: pl pe nth_Num [OF last] lerp_exact_same)
  next
    case False
    let ?i = "nat \<lfloor>h\<rfloor>"
    have "real ?i \<le> h"
      using h0 by simp
    then have "real ?i < real (?n - 1)"
      using False by linarith
    then have i: "?i < ?n - 1"
      by simp
    then have i1: "?i < ?n" and i2: "?i + 1 < ?n"
      by simp_all
    have ab: "?s ! ?i \<le> ?s ! (?i + 1)"
      using srt i by (intro sorted_nth_mono) simp_all
    have pl: "percentile_linear (map Num xs) q
        = lerp (map Num ?s ! ?i) (map Num ?s ! (?i + 1)) (h - of_int \<lfloor>h\<rfloor>)"
      using False unfolding h_def
      by (simp only: percentile_linear_def Let_def sort_f_Num length_map len if_False)
    have pe: "percentile_exact xs q
        = lerp_exact (?s ! ?i) (?s ! (?i + 1)) (h - of_int \<lfloor>h\<rfloor>)"
      using False unfolding h_def by (simp only: percentile_exact_def interp_def len if_False)
    have "lerp (Num (?s ! ?i)) (Num (?s ! (?i + 1))) (h - of_int \<lfloor>h\<rfloor>)
        = Num (lerp_exact (?s ! ?i) (?s ! (?i + 1)) (h - of_int \<lfloor>h\<rfloor>))"
      by (intro lerp_Num rng' ab i1 i2 g)
    then show ?thesis
      by (simp only: pl pe nth_Num [OF i1] nth_Num [OF i2])
  qed
qed

lemma and_then_Inr_iff:
  "and_then r f = Inr y \<longleftrightarrow> (\<exists>x. r = Inr x \<and> f x = Inr y)"
  by (cases r) (simp_all add: and_then_def)

lemma traverse_total:
  "(\<And>x. x \<in> set xs \<Longrightarrow> \<exists>y. f x = Inr y) \<Longrightarrow> \<exists>ys. traverse f xs = Inr ys"
proof (induction xs)
  case Nil
  show ?case by simp
next
  case (Cons x xs)
  obtain y where y: "f x = Inr y"
    using Cons.prems [of x] by auto
  obtain ys where ys: "traverse f xs = Inr ys"
    using Cons.IH Cons.prems by auto
  show ?case
    by (simp add: y ys and_then_def)
qed

lemma traverse_mem:
  "traverse f xs = Inr ys \<Longrightarrow> y \<in> set ys \<Longrightarrow> \<exists>x \<in> set xs. f x = Inr y"
proof (induction xs arbitrary: ys)
  case Nil
  then show ?case by simp
next
  case (Cons x xs)
  from Cons.prems(1) obtain z zs where z: "f x = Inr z" and zs: "traverse f xs = Inr zs"
    and ys: "ys = z # zs"
    by (auto simp: and_then_Inr_iff)
  show ?case
  proof (cases "y = z")
    case True
    then show ?thesis using z by simp
  next
    case False
    then have "y \<in> set zs"
      using Cons.prems(2) ys by simp
    then show ?thesis
      using Cons.IH [OF zs] by auto
  qed
qed

lemma np_percentile_total:
  assumes "x \<noteq> []" "0 \<le> q" "q \<le> 100"
  shows "\<exists>v. np_percentile x q = Inr v"
  using assms by (simp add: np_percentile_def)

lemma agg_column_total:
  assumes "x \<noteq> []"
  shows "\<exists>a. agg_column x = Inr a"
proof -
  obtain p10 p25 p50 p75 p90 where
    "np_percentile x 10 = Inr p10" "np_percentile x 25 = Inr p25"
    "np_percentile x 50 = Inr p50" "np_percentile x 75 = Inr p75"
    "np_percentile x 90 = Inr p90"
    using np_percentile_total [OF assms, of 10] np_percentile_total [OF assms, of 25]
      np_percentile_total [OF assms, of 50] np_percentile_total [OF assms, of 75]
      np_percentile_total [OF assms, of 90]
    by auto
  then show ?thesis
    by (simp add: agg_column_def and_then_def)
qed

lemma np_percentile_in_range:
  assumes ne: "x \<noteq> []" and rng: "\<forall>v \<in> set x. in_range v" and q: "0 \<le> q" "q \<le> 100"
  shows "np_percentile x q = Inr (Num (percentile_exact (num_values x) q))"
proof -
  note l = in_range_list [OF rng]
  have ne': "num_values x \<noteq> []"
    using ne l(1) by (metis list.map_disc_iff)
  have "percentile_linear x q = Num (percentile_exact (num_values x) q)"
    using percentile_linear_Num [OF ne' l(2) q(1)] l(1) by simp
  then show ?thesis
    using ne q in_range_not_NaN [OF rng] by (simp add: np_percentile_def)
qed

lemma agg_column_in_range:
  assumes ne: "x \<noteq> []" and rng: "\<forall>v \<in> set x. in_range v"
  shows "\<exists>v vs. num_values x = v # vs \<and> agg_column x =
     Inr \<lparr>flow10 = Num (percentile_exact (num_values x) 10),
          flow25 = Num (percentile_exact (num_values x) 25),
          flow50 = Num (percentile_exact (num_values x) 50),
          flow75 = Num (percentile_exact (num_values x) 75),
          flow90 = Num (percentile_exact (num_values x) 90),
          Nobs = length x, minv = Num (fold min vs v), maxv = Num (fold max vs v)\<rparr>"
proof -
  note l = in_range_list [OF rng]
  obtain v vs where p: "num_values x = v # vs"
    using ne l(1) by (cases "num_values x") auto
  have x: "x = Num v # map Num vs"
    using l(1) p by simp
  have n: "notna x = Num v # map Num vs"
    using notna_in_range [OF rng] x by simp
  have "min_agg x = Num (fold min vs v)" "max_agg x = Num (fold max vs v)"
    by (simp_all only: min_agg_def max_agg_def n list.case fold_fmin_Num fold_fmax_Num)
  moreover have "count_agg x = length x"
    by (simp only: count_agg_def notna_in_range [OF rng])
  ultimately show ?thesis
    using p by (simp add: agg_column_def and_then_def np_percentile_in_range [OF ne rng])
qed

lemma agg_column_ordered:
  assumes ne: "x \<noteq> []" and rng: "\<forall>v \<in> set x. in_range v" and a: "agg_column x = Inr a"
  shows "band_ordered a"
proof -
  let ?p = "num_values x"
  from agg_column_in_range [OF ne rng] a obtain v vs where p: "?p = v # vs"
    and a': "a = \<lparr>flow10 = Num (percentile_exact ?p 10),
          flow25 = Num (percentile_exact ?p 25),
          flow50 = Num (percentile_exact ?p 50),
          flow75 = Num (percentile_exact ?p 75),
          flow90 = Num (percentile_exact ?p 90),
          Nobs = length x, minv = Num (fold min vs v), maxv = Num (fold max vs v)\<rparr>"
    by auto
  have pne: "?p \<noteq> []"
    using p by simp
  have lo: "fold min vs v \<le> percentile_exact ?p 10"
  proof -
    obtain l where "l \<in> set ?p" "l \<le> percentile_exact ?p 10"
      using percentile_exact_in_range [OF pne, of 10] by auto
    then show ?thesis
      using fold_min_le [of l v vs] p by simp
  qed
  have hi: "percentile_exact ?p 90 \<le> fold max vs v"
  proof -
    obtain h where "h \<in> set ?p" "percentile_exact ?p 90 \<le> h"
      using percentile_exact_in_range [OF pne, of 90] by auto
    then show ?thesis
      using fold_max_ge [of h v vs] p by simp
  qed
  have m1: "percentile_exact ?p 10 \<le> percentile_exact ?p 25"
    by (rule percentile_exact_mono [OF pne]) simp_all
  have m2: "percentile_exact ?p 25 \<le> percentile_exact ?p 50"
    by (rule percentile_exact_mono [OF pne]) simp_all
  have m3: "percentile_exact ?p 50 \<le> percentile_exact ?p 75"
    by (rule percentile_exact_mono [OF pne]) simp_all
  have m4: "percentile_exact ?p 75 \<le> percentile_exact ?p 90"
    by (rule percentile_exact_mono [OF pne]) simp_all
  show ?thesis
    using lo hi m1 m2 m3 m4 by (simp add: band_ordered_def a')
qed

lemma groupby_agg_total: "\<exists>stats. groupby_agg key col df = Inr stats"
proof -
  have "\<exists>y. and_then (agg_column (map col (filter (\<lambda>r. key r = k) df))) (\<lambda>a. Inr (k, a)) = Inr y"
    if "k \<in> set (sort (remdups (map key df)))" for k
  proof -
    from that obtain r where "r \<in> set df" "key r = k"
      by auto
    then have "map col (filter (\<lambda>r. key r = k) df) \<noteq> []"
      by (auto simp: filter_empty_conv)
    from agg_column_total [OF this] show ?thesis
      by (auto simp: and_then_def)
  qed
  then show ?thesis
    unfolding groupby_agg_def by (rule traverse_total)
qed

lemma groupby_agg_mem:
  assumes "groupby_agg key col df = Inr stats" "(k, a) \<in> set stats"
  shows "k \<in> key ` set df \<and> agg_column (map col (filter (\<lambda>r. key r = k) df)) = Inr a"
proof -
  from traverse_mem [OF assms [unfolded groupby_agg_def]]
  obtain k' where k': "k' \<in> set (sort (remdups (map key df)))"
    and eq: "and_then (agg_column (map col (filter (\<lambda>r. key r = k') df))) (\<lambda>a. Inr (k', a)) = Inr (k, a)"
    by auto
  from eq have "k' = k" "agg_column (map col (filter (\<lambda>r. key r = k') df)) = Inr a"
    by (auto simp: and_then_Inr_iff)
  then show ?thesis
    using k' by auto
qed

lemma groupby_agg_ordered:
  assumes st: "groupby_agg key col df = Inr stats" and mem: "(k, a) \<in> set stats"
    and num: "\<And>r. r \<in> set df \<Longrightarrow> key r = k \<Longrightarrow> in_range (col r)"
  shows "band_ordered a"
proof -
  let ?x = "map col (filter (\<lambda>r. key r = k) df)"
  from groupby_agg_mem [OF st mem] have k: "k \<in> key ` set df" and a: "agg_column ?x = Inr a"
    by simp_all
  have ne: "?x \<noteq> []"
    using k by (auto simp: filter_empty_conv)
  have "\<forall>v \<in> set ?x. in_range v"
    using num by auto
  from agg_column_ordered [OF ne this a] show ?thesis .
qed

lemma gw_statistics_ordered:
  assumes st: "gw_calculate_statistics df = Inr stats" and mem: "(k, a) \<in> set stats"
    and num: "\<And>r. r \<in> set df \<Longrightarrow> (gw_site r, gw_julian r) = k \<Longrightarrow> in_range (depth_ft r)"
  shows "band_ordered a"
proof -
  from st obtain parts where tr: "traverse (gw_site_statistics df) (unique (map gw_site df)) = Inr parts"
    and stats: "stats = concat parts"
    by (auto simp: gw_calculate_statistics_def and_then_Inr_iff split: if_splits)
  from mem stats obtain part where part: "part \<in> set parts" and ka: "(k, a) \<in> set part"
    by auto
  from traverse_mem [OF tr part] obtain s where
    s: "gw_site_statistics df s = Inr part"
    by auto
  let ?sd = "filter (\<lambda>r. gw_site r = s) df"
  have g: "groupby_agg (\<lambda>r. (gw_site r, gw_julian r)) depth_ft ?sd = Inr part"
    using s by (simp add: gw_site_statistics_def)
  show ?thesis
  proof (rule groupby_agg_ordered [OF g ka])
    fix r
    assume "r \<in> set ?sd" "(gw_site r, gw_julian r) = k"
    then show "in_range (depth_ft r)"
      using num [of r] by simp
  qed
qed

lemma gw_statistics_total:
  assumes "df \<noteq> []"
  shows "\<exists>stats. gw_calculate_statistics df = Inr stats"
proof -
  have "\<exists>y. gw_site_statistics df s = Inr y" for s
    unfolding gw_site_statistics_def Let_def by (rule groupby_agg_total)
  then obtain parts where
    tr: "traverse (gw_site_statistics df) (unique (map gw_site df)) = Inr parts"
    using traverse_total [of "unique (map gw_site df)" "gw_site_statistics df"] by auto
  have "unique (map gw_site df) \<noteq> []"
    using assms by (simp add: unique_def)
  then have "parts \<noteq> []"
    using tr by (cases "unique (map gw_site df)") (auto simp: and_then_Inr_iff)
  then show ?thesis
    by (simp add: gw_calculate_statistics_def tr and_then_def)
qed

lemma res_statistics_ordered:
  assumes st: "res_calculate_statistics df = Inr stats" and mem: "(k, a) \<in> set stats"
    and num: "\<And>r. r \<in> set df \<Longrightarrow> (NIDID r, res_julian r) = k \<Longrightarrow> in_range (percentStorage r)"
  shows "band_ordered a"
  using groupby_agg_ordered [OF st [unfolded res_calculate_statistics_def] mem] num
  by blast


lemma overflow_example_statistics:
  "gw_calculate_statistics overflow_example =
     Inr [((''W1'', 10),
           \<lparr>flow10 = Num (- (2 ^ 1023)), flow25 = Num (- (2 ^ 1023)), flow50 = NaN,
            flow75 = NegInf, flow90 = NegInf, Nobs = 3, minv = Num (- (2 ^ 1023)),
            maxv = Num (2 ^ 1023)\<rparr>)]"
  by (simp add: gw_calculate_statistics_def overflow_example_def unique_def
      gw_site_statistics_def groupby_agg_def and_then_def agg_column_def np_percentile_def
      percentile_linear_def lerp_def count_agg_def min_agg_def max_agg_def notna_def
      sort_f_def fmin_def fmax_def fsub_def fl_def overflow_bound_def max_float_def
      inf_of_sign_def)

text \<open>
  Claim C5, as stated: every band built from a non-empty group of numeric values would be
  ordered.  For the group \<open>-2^1023, -2^1023, 2^1023\<close> the difference of the two order
  statistics around the median overflows to infinity: the band has \<open>p50 = NaN\<close> and
  \<open>p75 = p90 = -inf\<close>, below \<open>p25\<close>.
\<close>

theorem overflow_band_counterexample:
  "gw_calculate_statistics overflow_example =
     Inr [((''W1'', 10),
           \<lparr>flow10 = Num (- (2 ^ 1023)), flow25 = Num (- (2 ^ 1023)), flow50 = NaN,
            flow75 = NegInf, flow90 = NegInf, Nobs = 3, minv = Num (- (2 ^ 1023)),
            maxv = Num (2 ^ 1023)\<rparr>)]
   \<and> \<not> band_ordered
       \<lparr>flow10 = Num (- (2 ^ 1023)), flow25 = Num (- (2 ^ 1023)), flow50 = NaN,
        flow75 = NegInf, flow90 = NegInf, Nobs = 3, minv = Num (- (2 ^ 1023)),
        maxv = Num (2 ^ 1023)\<rparr>"
  by (simp add: overflow_example_statistics band_ordered_def)

text \<open>
  Claim C5, amended.  Every band that the per-(site, julian day) statistics of the
  groundwater and of the reservoir tables produce from a group whose values are all
  numbers of magnitude at most half the largest finite double (so that no difference of
  two of them overflows) satisfies \<open>min \<le> p10 \<le> p25 \<le> p50 \<le> p75 \<le> p90 \<le> max\<close>
  (non-strict).  The reservoir statistics never raise, and the groundwater statistics raise
  only on an empty table.
\<close>

theorem percentile_ordering:
  "(gw_calculate_statistics gdf = Inr gstats \<longrightarrow> (k, a) \<in> set gstats \<longrightarrow>
      (\<forall>r \<in> set gdf. (gw_site r, gw_julian r) = k \<longrightarrow> in_range (depth_ft r)) \<longrightarrow>
      band_ordered a)
   \<and> (res_calculate_statistics rdf = Inr rstats \<longrightarrow> (k', a') \<in> set rstats \<longrightarrow>
      (\<forall>r \<in> set rdf. (NIDID r, res_julian r) = k' \<longrightarrow> in_range (percentStorage r)) \<longrightarrow>
      band_ordered a')
   \<and> (gdf \<noteq> [] \<longrightarrow> (\<exists>stats. gw_calculate_statistics gdf = Inr stats))
   \<and> (\<exists>stats. res_calculate_statistics rdf = Inr stats)"
proof (intro conjI impI)
  assume "gw_calculate_statistics gdf = Inr gstats" "(k, a) \<in> set gstats"
    "\<forall>r \<in> set gdf. (gw_site r, gw_julian r) = k \<longrightarrow> in_range (depth_ft r)"
  then show "band_ordered a"
    using gw_statistics_ordered [of gdf gstats k a] by blast
next
  assume "res_calculate_statistics rdf = Inr rstats" "(k', a') \<in> set rstats"
    "\<forall>r \<in> set rdf. (NIDID r, res_julian r) = k' \<longrightarrow> in_range (percentStorage r)"
  then show "band_ordered a'"
    using res_statistics_ordered [of rdf rstats k' a'] by blast
next
  assume "gdf \<noteq> []"
  then show "\<exists>stats. gw_calculate_statistics gdf = Inr stats"
    by (rule gw_statistics_total)
next
  show "\<exists>stats. res_calculate_statistics rdf = Inr stats"
    unfolding res_calculate_statistics_def by (rule groupby_agg_total)
qed

lemma agg_column_small:
  assumes "x = map Num (v # vs)" "\<forall>r \<in> set (v # vs). \<bar>r\<bar> \<le> 1000"
  shows "agg_column x =
     Inr \<lparr>flow10 = Num (percentile_exact (v # vs) 10),
          flow25 = Num (percentile_exact (v # vs) 25),
          flow50 = Num (percentile_exact (v # vs) 50),
          flow75 = Num (percentile_exact (v # vs) 75),
          flow90 = Num (percentile_exact (v # vs) 90),
          Nobs = Suc (length vs), minv = Num (fold min vs v), maxv = Num (fold max vs v)\<rparr>"
proof -
  have ne: "x \<noteq> []"
    using assms(1) by simp
  have rng: "\<forall>w \<in> set x. in_range w"
    using assms in_range_small by auto
  have nv: "num_values x = v # vs"
    using in_range_list(1) [OF rng] assms(1) by (metis inj_on_def float64.inject inj_map_eq_map injI)
  from agg_column_in_range [OF ne rng] show ?thesis
    using nv assms(1) by auto
qed

lemma gw_example_statistics:
  "gw_calculate_statistics gw_example = Inr [((''W1'', 10), \<lparr>flow10 = Num 7, flow25 = Num 10, flow50 = Num 15, flow75 = Num 20,
            flow90 = Num 23, Nobs = 5, minv = Num 5, maxv = Num 25\<rparr>)]"
proof -
  have p: "percentile_exact [25, 5, 15, 10, 20] 10 = 7"
    "percentile_exact [25, 5, 15, 10, 20] 25 = 10"
    "percentile_exact [25, 5, 15, 10, 20] 50 = 15"
    "percentile_exact [25, 5, 15, 10, 20] 75 = 20"
    "percentile_exact [25, 5, 15, 10, 20] 90 = 23"
    by (simp_all add: percentile_exact_def interp_def lerp_exact_def)
  have "agg_column [Num 25, Num 5, Num 15, Num 10, Num 20] = Inr \<lparr>flow10 = Num 7, flow25 = Num 10, flow50 = Num 15, flow75 = Num 20,
            flow90 = Num 23, Nobs = 5, minv = Num 5, maxv = Num 25\<rparr>"
    using agg_column_small [of "[Num 25, Num 5, Num 15, Num 10, Num 20]" 25 "[5, 15, 10, 20]"]
    by (simp add: p)
  then show ?thesis
    by (simp add: gw_calculate_statistics_def gw_example_def gw_example_row_def unique_def
        gw_site_statistics_def groupby_agg_def and_then_def)
qed

lemma res_example_statistics:
  "res_calculate_statistics res_example = Inr [((''TX00001'', 10), \<lparr>flow10 = Num 54, flow25 = Num 60, flow50 = Num 70, flow75 = Num 80,
            flow90 = Num 86, Nobs = 5, minv = Num 50, maxv = Num 90\<rparr>)]"
proof -
  have p: "percentile_exact [90, 50, 70, 60, 80] 10 = 54"
    "percentile_exact [90, 50, 70, 60, 80] 25 = 60"
    "percentile_exact [90, 50, 70, 60, 80] 50 = 70"
    "percentile_exact [90, 50, 70, 60, 80] 75 = 80"
    "percentile_exact [90, 50, 70, 60, 80] 90 = 86"
    by (simp_all add: percentile_exact_def interp_def lerp_exact_def)
  have "agg_column [Num 90, Num 50, Num 70, Num 60, Num 80] = Inr \<lparr>flow10 = Num 54, flow25 = Num 60, flow50 = Num 70, flow75 = Num 80,
            flow90 = Num 86, Nobs = 5, minv = Num 50, maxv = Num 90\<rparr>"
    using agg_column_small [of "[Num 90, Num 50, Num 70, Num 60, Num 80]" 90 "[50, 70, 60, 80]"]
    by (simp add: p)
  then show ?thesis
    by (simp add: res_calculate_statistics_def res_example_def res_example_row_def
        groupby_agg_def and_then_def)
qed

theorem percentile_ordering_witness:
  "gw_calculate_statistics gw_example = Inr [((''W1'', 10), \<lparr>flow10 = Num 7, flow25 = Num 10, flow50 = Num 15, flow75 = Num 20,
            flow90 = Num 23, Nobs = 5, minv = Num 5, maxv = Num 25\<rparr>)]
   \<and> band_ordered \<lparr>flow10 = Num 7, flow25 = Num 10, flow50 = Num 15, flow75 = Num 20,
            flow90 = Num 23, Nobs = 5, minv = Num 5, maxv = Num 25\<rparr>
   \<and> res_calculate_statistics res_example = Inr [((''TX00001'', 10), \<lparr>flow10 = Num 54, flow25 = Num 60, flow50 = Num 70, flow75 = Num 80,
            flow90 = Num 86, Nobs = 5, minv = Num 50, maxv = Num 90\<rparr>)]
   \<and> band_ordered \<lparr>flow10 = Num 54, flow25 = Num 60, flow50 = Num 70, flow75 = Num 80,
            flow90 = Num 86, Nobs = 5, minv = Num 50, maxv = Num 90\<rparr>"
proof -
  let ?ga = "\<lparr>flow10 = Num 7, flow25 = Num 10, flow50 = Num 15, flow75 = Num 20,
            flow90 = Num 23, Nobs = 5, minv = Num 5, maxv = Num 25\<rparr>"
  let ?ra = "\<lparr>flow10 = Num 54, flow25 = Num 60, flow50 = Num 70, flow75 = Num 80,
            flow90 = Num 86, Nobs = 5, minv = Num 50, maxv = Num 90\<rparr>"
  have g: "gw_calculate_statistics gw_example = Inr [((''W1'', 10), ?ga)]"
    by (rule gw_example_statistics)
  have r: "res_calculate_statistics res_example = Inr [((''TX00001'', 10), ?ra)]"
    by (rule res_example_statistics)
  have gn: "\<forall>r \<in> set gw_example. (gw_site r, gw_julian r) = (''W1'', 10) \<longrightarrow> in_range (depth_ft r)"
    by (simp add: gw_example_def gw_example_row_def in_range_small del: in_range.simps)
  have rn: "\<forall>r \<in> set res_example. (NIDID r, res_julian r) = (''TX00001'', 10) \<longrightarrow> in_range (percentStorage r)"
    by (simp add: res_example_def res_example_row_def in_range_small del: in_range.simps)
  note inst = percentile_ordering [of gw_example "[((''W1'', 10), ?ga)]" "(''W1'', 10)" ?ga
      res_example "[((''TX00001'', 10), ?ra)]" "(''TX00001'', 10)" ?ra]
  have "band_ordered ?ga"
    using inst g gn by simp
  moreover have "band_ordered ?ra"
    using inst r rn by simp
  ultimately show ?thesis
    using g r by simp
qed
section \<open>The worked example\<close>

lemma example_statistics:
  "calculate_flow_statistics example_history =
     Inr [((''siteA'', 100),
           \<lparr>flow10 = Num 7, flow25 = Num 10, flow50 = Num 15, flow75 = Num 20,
            flow90 = Num 23, Nobs = 5, minv = Num 5, maxv = Num 25,
            startYr = 2001, endYr = 2006\<rparr>)]"
proof -
  have p: "percentile_exact [5, 10, 15, 20, 25] 10 = 7"
    "percentile_exact [5, 10, 15, 20, 25] 25 = 10"
    "percentile_exact [5, 10, 15, 20, 25] 50 = 15"
    "percentile_exact [5, 10, 15, 20, 25] 75 = 20"
    "percentile_exact [5, 10, 15, 20, 25] 90 = 23"
    by (simp_all add: percentile_exact_def interp_def lerp_exact_def)
  have "agg_column [Num 5, Num 10, Num 15, Num 20, Num 25] =
     Inr \<lparr>flow10 = Num 7, flow25 = Num 10, flow50 = Num 15, flow75 = Num 20,
          flow90 = Num 23, Nobs = 5, minv = Num 5, maxv = Num 25\<rparr>"
    using agg_column_small [of "[Num 5, Num 10, Num 15, Num 20, Num 25]" 5 "[10, 15, 20, 25]"]
    by (simp add: p)
  then show ?thesis
    by (simp add: calculate_flow_statistics_def example_history_def example_row_def
        unique_def site_flow_statistics_def groupby_agg_def and_then_def with_years_def
        agg.extend_def flow_stats.fields_def)
qed

lemma example_band:
  "band_lookup example_history (''siteA'', 100) =
     Inr \<lparr>flow10 = Num 7, flow25 = Num 10, flow50 = Num 15, flow75 = Num 20,
          flow90 = Num 23\<rparr>"
  by (simp add: band_lookup_def example_statistics and_then_def merge_left_def
      percentile_columns_def)

text \<open>
  Claim C2, as stated: the band of the example would have \<open>p10 = 5\<close> and \<open>p90 = 25\<close>, and
  the current value 7 would be \<open>Very Dry\<close>.  Linear interpolation gives \<open>p10 = 7\<close> and
  \<open>p90 = 23\<close>, and 7 is not above \<open>p10\<close>.
\<close>

theorem example_band_counterexample:
  "band_lookup example_history (''siteA'', 100) \<noteq>
     Inr \<lparr>flow10 = Num 5, flow25 = Num 10, flow50 = Num 15, flow75 = Num 20,
          flow90 = Num 25\<rparr>
   \<and> current_status example_history (''siteA'', 100) (Num 7) \<noteq> Inr ''Very Dry''"
  by (simp add: current_status_def example_band and_then_def streamflow_determine_status_def)

text \<open>
  Claim C2, amended.  For the history of the five observations 5, 10, 15, 20, 25 at
  (siteA, julian day 100) the statistics table has the single row
  \<open>{Nobs: 5, min: 5, p10: 7, p25: 10, p50: 15, p75: 20, p90: 23, max: 25}\<close>, and the current
  value 7 on that site and day is classified \<open>Extremely Dry\<close> by the direct mapping.
\<close>

theorem example_band_and_status:
  "calculate_flow_statistics example_history =
     Inr [((''siteA'', 100),
           \<lparr>flow10 = Num 7, flow25 = Num 10, flow50 = Num 15, flow75 = Num 20,
            flow90 = Num 23, Nobs = 5, minv = Num 5, maxv = Num 25,
            startYr = 2001, endYr = 2006\<rparr>)]
   \<and> band_lookup example_history (''siteA'', 100) =
     Inr \<lparr>flow10 = Num 7, flow25 = Num 10, flow50 = Num 15, flow75 = Num 20,
          flow90 = Num 23\<rparr>
   \<and> current_status example_history (''siteA'', 100) (Num 7) = Inr ''Extremely Dry''"
  by (simp add: example_statistics current_status_def example_band and_then_def
      streamflow_determine_status_def)

section \<open>The julian reference table\<close>

lemma digit_char_inj:
  assumes "a < 10" "b < 10" "digit_char a = digit_char b"
  shows "a = b"
proof -
  have "(of_char (digit_char a) :: nat) = of_char (digit_char b)"
    using assms(3) by simp
  then have "(48 + a) mod 256 = (48 + b) mod 256"
    by (simp add: digit_char_def)
  then show ?thesis
    using assms(1,2) by simp
qed

lemma two_digits_inj:
  assumes "a < 100" "b < 100" "two_digits a = two_digits b"
  shows "a = b"
proof -
  have "a div 10 mod 10 = b div 10 mod 10" "a mod 10 = b mod 10"
    using assms(3) by (auto simp: two_digits_def intro: digit_char_inj)
  moreover have "a div 10 mod 10 = a div 10" "b div 10 mod 10 = b div 10"
    using assms by simp_all
  ultimately have "a div 10 = b div 10" "a mod 10 = b mod 10"
    by simp_all
  then show ?thesis
    by (metis div_mult_mod_eq)
qed

lemma md_key_inj:
  assumes "m < 100" "d < 100" "m' < 100" "d' < 100" "md_key m d = md_key m' d'"
  shows "m = m' \<and> d = d'"
proof -
  have "length (two_digits m) = length (two_digits m')"
    by (simp add: two_digits_def)
  then have "two_digits m = two_digits m'" "two_digits d = two_digits d'"
    using assms(5) by (simp_all add: md_key_def)
  then show ?thesis
    using assms two_digits_inj by blast
qed

lemma month_days_bounds: "28 \<le> month_days leap m" "month_days leap m \<le> 31"
  by (simp_all add: month_days_def)

lemma strftime_md_key: "strftime_md dt = md_key (month dt) (day dt)"
  by (simp add: strftime_md_def md_key_def)

lemma keys_of_month: "map strftime_md (month_dates y m) = month_keys (is_leap_year y) m"
  by (simp add: month_dates_def month_keys_def strftime_md_key days_in_month_def comp_def)

lemma keys_of_year: "map strftime_md (date_range_year y) = year_keys (is_leap_year y)"
  by (simp add: date_range_year_def year_keys_def map_concat keys_of_month comp_def)

lemma month_keys_mem:
  "k \<in> set (month_keys leap m) \<longleftrightarrow> (\<exists>d. 1 \<le> d \<and> d \<le> month_days leap m \<and> k = md_key m d)"
  by (auto simp: month_keys_def)

lemma month_keys_distinct: "m < 100 \<Longrightarrow> distinct (month_keys leap m)"
proof -
  assume m: "m < 100"
  have "inj_on (md_key m) (set [1..<Suc (month_days leap m)])"
  proof (rule inj_onI)
    fix d d'
    assume "d \<in> set [1..<Suc (month_days leap m)]" "d' \<in> set [1..<Suc (month_days leap m)]"
      and eq: "md_key m d = md_key m d'"
    then have "d < 100" "d' < 100"
      using month_days_bounds(2) [of leap m] by auto
    from md_key_inj [OF m this(1) m this(2) eq] show "d = d'"
      by simp
  qed
  then show ?thesis
    by (simp add: month_keys_def distinct_map)
qed

lemma month_keys_disjoint:
  assumes "m < 100" "m' < 100" "m \<noteq> m'"
  shows "set (month_keys leap m) \<inter> set (month_keys leap m') = {}"
proof (rule ccontr)
  assume "set (month_keys leap m) \<inter> set (month_keys leap m') \<noteq> {}"
  then obtain k where "k \<in> set (month_keys leap m)" "k \<in> set (month_keys leap m')"
    by auto
  then obtain d d' where d: "d \<le> month_days leap m" "k = md_key m d"
    and d': "d' \<le> month_days leap m'" "k = md_key m' d'"
    by (auto simp: month_keys_mem)
  have "d < 100" "d' < 100"
    using d(1) d'(1) month_days_bounds(2) [of leap m] month_days_bounds(2) [of leap m']
    by simp_all
  from md_key_inj [OF assms(1) this(1) assms(2) this(2)] d(2) d'(2) assms(3)
  show False
    by simp
qed

lemma year_keys_distinct: "distinct (year_keys leap)"
  unfolding year_keys_def
proof (rule distinct_concat)
  have ne: "month_keys leap m \<noteq> []" for m
    using month_days_bounds(1) [of leap m] by (simp add: month_keys_def)
  have "inj_on (month_keys leap) (set [1..<13])"
  proof (rule inj_onI)
    fix m m'
    assume m: "m \<in> set [1..<13]" "m' \<in> set [1..<13]"
      and eq: "month_keys leap m = month_keys leap m'"
    show "m = m'"
    proof (rule ccontr)
      assume "m \<noteq> m'"
      moreover have "m < 100" "m' < 100"
        using m by simp_all
      ultimately have "set (month_keys leap m) \<inter> set (month_keys leap m') = {}"
        by (intro month_keys_disjoint)
      then show False
        using eq ne [of m] by simp
    qed
  qed
  then show "distinct (map (month_keys leap) [1..<13])"
    by (simp add: distinct_map)
next
  fix ys
  assume "ys \<in> set (map (month_keys leap) [1..<13])"
  then show "distinct ys"
    by (auto intro: month_keys_distinct)
next
  fix ys zs
  assume "ys \<in> set (map (month_keys leap) [1..<13])" "zs \<in> set (map (month_keys leap) [1..<13])"
    "ys \<noteq> zs"
  then obtain m m' where mm: "ys = month_keys leap m" "zs = month_keys leap m'" "m < 13" "m' < 13"
    by auto
  then have "m \<noteq> m'"
    using \<open>ys \<noteq> zs\<close> by auto
  then show "set ys \<inter> set zs = {}"
    using month_keys_disjoint [of m m' leap] mm by simp
qed

lemma concat_nth_offset:
  assumes "a \<le> m" "m < b" "j < length (f m)"
  shows "concat (map f [a..<b]) ! (sum_list (map (\<lambda>k. length (f k)) [a..<m]) + j) = f m ! j"
proof -
  have "[a..<b] = [a..<m] @ m # [Suc m..<b]"
    using assms(1,2) by (metis le_add_diff_inverse less_imp_le_nat upt_add_eq_append upt_conv_Cons)
  then have "concat (map f [a..<b]) = concat (map f [a..<m]) @ f m @ concat (map f [Suc m..<b])"
    by simp
  moreover have "length (concat (map f [a..<m])) = sum_list (map (\<lambda>k. length (f k)) [a..<m])"
    by (simp add: length_concat comp_def)
  ultimately show ?thesis
    using assms(3) by (simp add: nth_append)
qed

lemma length_month_keys: "length (month_keys leap m) = month_days leap m"
  by (simp add: month_keys_def)

lemma length_year_keys: "length (year_keys leap) = days_before leap 13"
  by (simp add: year_keys_def days_before_def length_concat comp_def length_month_keys)

lemma upt_1_13: "[1..<13] = [1, 2, 3, 4, 5, 6, 7, 8, 9, 10, 11, 12::nat]"
  by (simp add: upt_rec)

lemma days_before_13: "days_before leap 13 = (if leap then 366 else 365)"
  unfolding days_before_def upt_1_13 by (simp add: month_days_def)

lemma days_before_mono:
  assumes "m \<le> m'"
  shows "days_before leap m \<le> days_before leap m'"
proof -
  have "[1..<m'] = [1..<m] @ [m..<m']" if "1 \<le> m"
    using that assms by (metis le_add_diff_inverse upt_add_eq_append)
  then show ?thesis
    by (cases "1 \<le> m") (auto simp: days_before_def)
qed

lemma days_before_Suc:
  assumes "1 \<le> m"
  shows "days_before leap (Suc m) = days_before leap m + month_days leap m"
  using assms by (simp add: days_before_def)

lemma year_keys_nth:
  assumes "1 \<le> m" "m \<le> 12" "1 \<le> d" "d \<le> month_days leap m"
  shows "days_before leap m + d - 1 < length (year_keys leap)"
    and "year_keys leap ! (days_before leap m + d - 1) = md_key m d"
proof -
  have "days_before leap m + d \<le> days_before leap (Suc m)"
    using assms by (simp add: days_before_Suc)
  also have "\<dots> \<le> days_before leap 13"
    using assms by (intro days_before_mono) simp
  finally show "days_before leap m + d - 1 < length (year_keys leap)"
    using assms(3) by (simp add: length_year_keys)
  have j: "d - 1 < length (month_keys leap m)"
    using assms by (simp add: length_month_keys)
  have "year_keys leap ! (days_before leap m + (d - 1)) = month_keys leap m ! (d - 1)"
    unfolding year_keys_def days_before_def
    using concat_nth_offset [of 1 m 13 "d - 1" "month_keys leap", OF assms(1) _ j] assms(2)
    by (simp add: length_month_keys)
  also have "\<dots> = md_key m d"
    using assms by (simp add: month_keys_def nth_map_upt del: upt_Suc)
  finally show "year_keys leap ! (days_before leap m + d - 1) = md_key m d"
    using assms(3) by simp
qed

lemma month_keys_leap_irrelevant: "m \<noteq> 2 \<Longrightarrow> month_keys True m = month_keys False m"
  by (simp add: month_keys_def month_days_def)

lemma md_key_feb29: "md_key 2 29 = ''02-29''"
  by code_simp

lemma month_keys_feb_leap: "month_keys True 2 = month_keys False 2 @ [''02-29'']"
proof -
  have d: "month_days True 2 = Suc 28" "month_days False 2 = 28"
    by (simp_all add: month_days_def)
  have "[1..<Suc (Suc 28)] = [1..<Suc 28] @ [Suc 28]"
    by (rule upt_Suc_append) simp
  then have "map (md_key 2) [1..<Suc (Suc 28)] = map (md_key 2) [1..<Suc 28] @ [md_key 2 (Suc 28)]"
    by (simp only: map_append list.map)
  moreover have "md_key 2 (Suc 28) = ''02-29''"
    using md_key_feb29 by simp
  ultimately show ?thesis
    by (simp only: month_keys_def d)
qed

lemma year_keys_leap_split:
  "year_keys True = take 59 (year_keys False) @ [''02-29''] @ drop 59 (year_keys False)"
proof -
  let ?a = "month_keys False 1 @ month_keys False 2"
  let ?r = "concat (map (month_keys False) [3, 4, 5, 6, 7, 8, 9, 10, 11, 12])"
  have f: "year_keys False = ?a @ ?r"
    unfolding year_keys_def upt_1_13 by simp
  have t: "year_keys True = ?a @ [''02-29''] @ ?r"
    unfolding year_keys_def upt_1_13
    by (simp add: month_keys_leap_irrelevant month_keys_feb_leap)
  have "length ?a = 59"
    by (simp add: length_month_keys month_days_def)
  then have "take 59 (year_keys False) = ?a" "drop 59 (year_keys False) = ?r"
    unfolding f by simp_all
  then show ?thesis
    using t by simp
qed

lemma map_zip_fst:
  "length xs = length ys \<Longrightarrow> map (\<lambda>(x, y). f x) (zip xs ys) = map f xs"
  by (induction xs ys rule: list_induct2) simp_all

lemma map_zip_snd:
  "length xs = length ys \<Longrightarrow> map (\<lambda>(x, y). g y) (zip xs ys) = map g ys"
  by (induction xs ys rule: list_induct2) simp_all

lemma length_date_range_2021: "length (date_range_year 2021) = 365"
proof -
  have "length (date_range_year 2021) = length (map strftime_md (date_range_year 2021))"
    by simp
  also have "\<dots> = 365"
    unfolding keys_of_year by (simp add: length_year_keys days_before_13 is_leap_year_def)
  finally show ?thesis .
qed

text \<open>The four columns of the table, in closed form.\<close>

lemma nonleap_frame_columns:
  "map day_month julian_df_nonleap = year_keys False"
  "map day_month_leap julian_df_nonleap = year_keys False"
  "map julian_index julian_df_nonleap = map (\<lambda>i. Num (real i)) [1..<366]"
  "map julian_index_leap julian_df_nonleap = map int [1..<366]"
proof -
  have k: "map strftime_md (date_range_year 2021) = year_keys False"
    by (simp add: keys_of_year is_leap_year_def)
  have len: "length (year_keys False) = length [1..<366::nat]"
    by (simp add: length_year_keys days_before_13)
  have df: "julian_df_nonleap =
      map (\<lambda>(s, i). \<lparr>day_month = s, julian_index = Num (real i), day_month_leap = s,
                     julian_index_leap = int i\<rparr>) (zip (year_keys False) [1..<366])"
    by (simp add: julian_df_nonleap_def Let_def k length_date_range_2021 del: upt_Suc)
  show "map day_month julian_df_nonleap = year_keys False"
    using map_zip_fst [OF len, of "\<lambda>s. s"] by (simp add: df comp_def case_prod_unfold)
  show "map day_month_leap julian_df_nonleap = year_keys False"
    using map_zip_fst [OF len, of "\<lambda>s. s"] by (simp add: df comp_def case_prod_unfold)
  show "map julian_index julian_df_nonleap = map (\<lambda>i. Num (real i)) [1..<366]"
    using map_zip_snd [OF len, of "\<lambda>i. Num (real i)"]
    by (simp add: df comp_def case_prod_unfold)
  show "map julian_index_leap julian_df_nonleap = map int [1..<366]"
    using map_zip_snd [OF len, of int] by (simp add: df comp_def case_prod_unfold)
qed

lemma length_julian_df_nonleap: "length julian_df_nonleap = 365"
proof -
  have "length julian_df_nonleap = length (map day_month julian_df_nonleap)"
    by simp
  also have "\<dots> = 365"
    unfolding nonleap_frame_columns by (simp add: length_year_keys days_before_13)
  finally show ?thesis .
qed

lemma length_julian_df_concat: "length julian_df_concat = 366"
  by (simp add: julian_df_concat_def length_julian_df_nonleap)

lemma concat_frame_columns:
  "map day_month julian_df_concat = year_keys True"
  "map day_month_leap julian_df_concat = year_keys True"
  "map julian_index julian_df_concat =
     map (\<lambda>i. Num (real i)) [1..<60] @ [NaN] @ map (\<lambda>i. Num (real i)) [60..<366]"
  "map julian_index_leap julian_df_concat = map int [1..<61] @ map int [60..<366]"
proof -
  show "map day_month julian_df_concat = year_keys True"
    by (simp add: julian_df_concat_def take_map [symmetric] drop_map [symmetric]
        nonleap_frame_columns year_keys_leap_split feb29_entry_def)
  show "map day_month_leap julian_df_concat = year_keys True"
    by (simp add: julian_df_concat_def take_map [symmetric] drop_map [symmetric]
        nonleap_frame_columns year_keys_leap_split feb29_entry_def)
  show "map julian_index julian_df_concat =
     map (\<lambda>i. Num (real i)) [1..<60] @ [NaN] @ map (\<lambda>i. Num (real i)) [60..<366]"
    by (simp add: julian_df_concat_def take_map [symmetric] drop_map [symmetric]
        nonleap_frame_columns feb29_entry_def take_map drop_map take_upt del: upt_Suc)
  have "[1..<61] = [1..<60] @ [60::nat]"
    using upt_Suc_append [of 1 60] by (simp del: upt_Suc)
  then have "map int [1..<61] = map int [1..<60] @ [60]"
    by (simp del: upt_Suc)
  then show "map julian_index_leap julian_df_concat = map int [1..<61] @ map int [60..<366]"
    by (simp add: julian_df_concat_def take_map [symmetric] drop_map [symmetric]
        nonleap_frame_columns feb29_entry_def take_map drop_map take_upt del: upt_Suc)
qed

lemma leap_assignment_fits: "length (drop 60 julian_df_concat) = length [61..<367::nat]"
  by (simp add: length_julian_df_concat del: upt_rec_numeral)

lemma create_julian_reference_ok: "create_julian_reference = Inr julian_df_adjusted"
  by (simp only: create_julian_reference_def leap_assignment_fits simp_thms if_True)

lemma adjusted_columns:
  "map day_month julian_df_adjusted = year_keys True"
  "map day_month_leap julian_df_adjusted = year_keys True"
  "map julian_index julian_df_adjusted =
     map (\<lambda>i. Num (real i)) [1..<60] @ [NaN] @ map (\<lambda>i. Num (real i)) [60..<366]"
  "map julian_index_leap julian_df_adjusted = map int [1..<367]"
proof -
  note len = leap_assignment_fits
  have keep: "map f (map (\<lambda>(r, v). r\<lparr>julian_index_leap := int v\<rparr>)
        (zip (drop 60 julian_df_concat) [61..<367])) = map f (drop 60 julian_df_concat)"
    if "\<And>r v. f (r\<lparr>julian_index_leap := v\<rparr>) = f r" for f :: "julian_row \<Rightarrow> 'a"
    using map_zip_fst [OF len, of f] that
    by (simp add: comp_def case_prod_unfold del: upt_rec_numeral)
  have whole: "map f julian_df_adjusted = map f julian_df_concat"
    if "\<And>r v. f (r\<lparr>julian_index_leap := v\<rparr>) = f r" for f :: "julian_row \<Rightarrow> 'a"
  proof -
    have "map f julian_df_adjusted = map f (take 60 julian_df_concat) @ map f (drop 60 julian_df_concat)"
      unfolding julian_df_adjusted_def map_append keep [OF that] ..
    then show ?thesis
      by (simp only: map_append [symmetric] append_take_drop_id)
  qed
  show "map day_month julian_df_adjusted = year_keys True"
    using whole [of day_month] by (simp add: concat_frame_columns del: upt_rec_numeral)
  show "map day_month_leap julian_df_adjusted = year_keys True"
    using whole [of day_month_leap] by (simp add: concat_frame_columns del: upt_rec_numeral)
  show "map julian_index julian_df_adjusted =
     map (\<lambda>i. Num (real i)) [1..<60] @ [NaN] @ map (\<lambda>i. Num (real i)) [60..<366]"
    using whole [of julian_index] by (simp add: concat_frame_columns del: upt_rec_numeral)
  have new: "map julian_index_leap (map (\<lambda>(r, v). r\<lparr>julian_index_leap := int v\<rparr>)
        (zip (drop 60 julian_df_concat) [61..<367])) = map int [61..<367]"
    using map_zip_snd [OF len, of int]
    by (simp add: comp_def case_prod_unfold del: upt_rec_numeral)
  have "take 60 (map julian_index_leap julian_df_concat) = map int [1..<61]"
    unfolding concat_frame_columns by (simp del: upt_rec_numeral upt_Suc)
  then have old: "map julian_index_leap (take 60 julian_df_concat) = map int [1..<61]"
    by (simp only: take_map)
  have "[1..<367] = [1..<61] @ [61..<367::nat]"
    using upt_add_eq_append [of 1 61 306] by (simp del: upt_rec_numeral upt_Suc)
  then show "map julian_index_leap julian_df_adjusted = map int [1..<367]"
    unfolding julian_df_adjusted_def map_append new old by (simp only: map_append)
qed

text \<open>Looking a key up in a column: the first row that carries it.\<close>

lemma filter_columns:
  "map g (filter (\<lambda>r. f r = k) xs)
     = map snd (filter (\<lambda>kv. fst kv = k) (zip (map f xs) (map g xs)))"
  by (induction xs) simp_all

lemma lookup_zip_missing:
  "k \<notin> set ks \<Longrightarrow> filter (\<lambda>kv. fst kv = k) (zip ks vs) = []"
  by (auto simp: filter_empty_conv dest: set_zip_leftD)

lemma lookup_zip_distinct:
  assumes "distinct ks" "p < length ks" "length vs = length ks"
  shows "map snd (filter (\<lambda>kv. fst kv = ks ! p) (zip ks vs)) = [vs ! p]"
  using assms
proof (induction ks arbitrary: vs p)
  case Nil
  then show ?case by simp
next
  case (Cons k ks)
  then obtain v vs' where vs: "vs = v # vs'"
    by (cases vs) auto
  show ?case
  proof (cases p)
    case 0
    have "k \<notin> set ks"
      using Cons.prems(1) by simp
    then show ?thesis
      using 0 vs by (simp add: lookup_zip_missing)
  next
    case (Suc q)
    have q: "q < length ks"
      using Cons.prems(2) Suc by simp
    then have ne: "ks ! q \<noteq> k"
      using Cons.prems(1) by auto
    have ih: "map snd (filter (\<lambda>kv. fst kv = ks ! q) (zip ks vs')) = [vs' ! q]"
    proof (rule Cons.IH [OF _ q])
      show "distinct ks"
        using Cons.prems(1) by simp
      show "length vs' = length ks"
        using Cons.prems(3) vs by simp
    qed
    have "filter (\<lambda>kv. fst kv = ks ! q) (zip (k # ks) (v # vs'))
        = filter (\<lambda>kv. fst kv = ks ! q) (zip ks vs')"
      using ne by simp
    then show ?thesis
      using ih by (simp only: Suc vs nth_Cons_Suc)
  qed
qed

lemma lookup_julian_columns:
  "lookup_julian julian_ref False dm =
     iloc0 (map snd (filter (\<lambda>kv. fst kv = dm)
       (zip (map day_month julian_ref) (map julian_index julian_ref))))"
  "lookup_julian julian_ref True dm =
     iloc0 (map snd (filter (\<lambda>kv. fst kv = dm)
       (zip (map day_month_leap julian_ref)
            (map (\<lambda>r. Num (real_of_int (julian_index_leap r))) julian_ref))))"
  by (simp_all only: lookup_julian_def if_True if_False filter_columns [symmetric])

lemma lookup_missing:
  "dm \<notin> set (map day_month julian_ref) \<Longrightarrow> lookup_julian julian_ref False dm = Inl IndexError"
  "dm \<notin> set (map day_month_leap julian_ref) \<Longrightarrow> lookup_julian julian_ref True dm = Inl IndexError"
  by (simp_all only: lookup_julian_columns lookup_zip_missing list.map iloc0_def list.case
      simp_thms)

lemma nonleap_values_nth:
  assumes "p < 366"
  shows "(map (\<lambda>i. Num (real i)) [1..<60] @ [NaN] @ map (\<lambda>i. Num (real i)) [60..<366]) ! p
     = (if p < 59 then Num (real (p + 1)) else if p = 59 then NaN else Num (real p))"
proof -
  consider "p < 59" | "p = 59" | "60 \<le> p"
    by linarith
  then show ?thesis
  proof cases
    case 1
    then show ?thesis
      by (simp add: nth_append nth_map_upt del: upt_Suc upt_rec_numeral)
  next
    case 2
    then show ?thesis
      by (simp add: nth_append del: upt_Suc upt_rec_numeral)
  next
    case 3
    then obtain q where q: "p = 60 + q"
      using le_Suc_ex by blast
    then have q': "q < 306"
      using assms by simp
    have "(map (\<lambda>i. Num (real i)) [1..<60] @ [NaN] @ map (\<lambda>i. Num (real i)) [60..<366]) ! (60 + q)
        = map (\<lambda>i. Num (real i)) [60..<366] ! q"
      by (simp add: nth_append del: upt_Suc upt_rec_numeral)
    also have "\<dots> = Num (real (60 + q))"
      using q' by (simp add: nth_map_upt del: upt_Suc upt_rec_numeral)
    finally show ?thesis
      by (simp add: q)
  qed
qed

lemma lookup_adjusted_leap:
  assumes "p < 366" "year_keys True ! p = dm"
  shows "lookup_julian julian_df_adjusted True dm = Inr (Num (real (p + 1)))"
proof -
  let ?vs = "map (\<lambda>r. Num (real_of_int (julian_index_leap r))) julian_df_adjusted"
  have vs: "?vs = map (\<lambda>i. Num (real i)) [1..<367]"
    using adjusted_columns(4) [THEN arg_cong, of "map (\<lambda>i. Num (real_of_int i))"]
    by (simp add: comp_def del: upt_rec_numeral upt_Suc)
  have len: "length (year_keys True) = 366"
    by (simp add: length_year_keys days_before_13)
  have "map snd (filter (\<lambda>kv. fst kv = year_keys True ! p) (zip (year_keys True) ?vs)) = [?vs ! p]"
    using assms(1) by (intro lookup_zip_distinct year_keys_distinct)
      (simp_all add: len vs del: upt_rec_numeral upt_Suc)
  moreover have "?vs ! p = Num (real (p + 1))"
    using assms(1) unfolding vs by (simp add: nth_map_upt del: upt_Suc upt_rec_numeral)
  ultimately show ?thesis
    using assms(2)
    by (simp add: lookup_julian_columns adjusted_columns iloc0_def vs del: upt_rec_numeral upt_Suc)
qed

lemma lookup_adjusted_nonleap:
  assumes "p < 366" "year_keys True ! p = dm"
  shows "lookup_julian julian_df_adjusted False dm =
     Inr (if p < 59 then Num (real (p + 1)) else if p = 59 then NaN else Num (real p))"
proof -
  let ?vs = "map (\<lambda>i. Num (real i)) [1..<60] @ [NaN] @ map (\<lambda>i. Num (real i)) [60..<366]"
  have len: "length (year_keys True) = 366"
    by (simp add: length_year_keys days_before_13)
  have "map snd (filter (\<lambda>kv. fst kv = year_keys True ! p) (zip (year_keys True) ?vs)) = [?vs ! p]"
    using assms(1) by (intro lookup_zip_distinct year_keys_distinct)
      (simp_all add: len del: upt_rec_numeral upt_Suc)
  then show ?thesis
    using assms by (simp only: lookup_julian_columns adjusted_columns iloc0_def
        nonleap_values_nth list.case)
qed

text \<open>Day counts.\<close>

lemma days_in_month_fun: "days_in_month y = month_days (is_leap_year y)"
  by (rule ext) (simp add: days_in_month_def)

lemma dayofyear_days_before:
  "dayofyear dt = days_before (is_leap_year (year dt)) (month dt) + day dt"
  by (simp add: dayofyear_def days_before_def days_in_month_fun)

lemma days_before_small:
  "days_before leap 1 = 0" "days_before leap (Suc 0) = 0"
  "days_before leap 2 = 31" "days_before False 3 = 59"
  "days_before True 3 = 60" "days_before False 4 = 90" "days_before False 12 = 334"
  "days_before True 12 = 335"
  by (simp_all add: days_before_def upt_rec month_days_def)

lemma days_before_leap_shift:
  assumes "3 \<le> m"
  shows "days_before True m = days_before False m + 1"
proof -
  have split: "[1..<m] = [1..<3] @ [3..<m]"
    using assms upt_add_eq_append [of 1 3 "m - 3"] by simp
  have rest: "sum_list (map (month_days True) [3..<m]) = sum_list (map (month_days False) [3..<m])"
    by (rule arg_cong [where f = sum_list], rule map_cong) (auto simp: month_days_def)
  have "days_before leap m = days_before leap 3 + sum_list (map (month_days leap) [3..<m])"
    for leap
    by (simp only: days_before_def split map_append sum_list_append)
  then show ?thesis
    by (simp only: rest days_before_small)
qed

lemma month_days_leap_ge: "month_days False m \<le> month_days True m"
  by (simp add: month_days_def)

lemma get_julian_day_leap:
  assumes "1 \<le> m" "m \<le> 12" "1 \<le> d" "d \<le> month_days True m"
  shows "lookup_julian julian_df_adjusted True (md_key m d)
     = Inr (Num (real (days_before True m + d)))"
proof -
  let ?p = "days_before True m + d - 1"
  have "?p < 366" "year_keys True ! ?p = md_key m d"
    using year_keys_nth [OF assms] by (simp_all add: length_year_keys days_before_13)
  from lookup_adjusted_leap [OF this] show ?thesis
    using assms(3) by simp
qed

lemma get_julian_day_nonleap:
  assumes "1 \<le> m" "m \<le> 12" "1 \<le> d" "d \<le> month_days False m"
  shows "lookup_julian julian_df_adjusted False (md_key m d)
     = Inr (Num (real (days_before False m + d)))"
proof -
  let ?p = "days_before True m + d - 1"
  have d': "d \<le> month_days True m"
    using assms(4) month_days_leap_ge [of m] by simp
  have p: "?p < 366" "year_keys True ! ?p = md_key m d"
    using year_keys_nth [OF assms(1-3) d'] by (simp_all add: length_year_keys days_before_13)
  note look = lookup_adjusted_nonleap [OF p]
  show ?thesis
  proof (cases "m \<le> 2")
    case True
    then consider "m = 1" | "m = 2"
      using assms(1) by linarith
    then have "?p < 59 \<and> ?p + 1 = days_before False m + d"
    proof cases
      case 1
      then show ?thesis
        using assms(3,4) by (simp add: days_before_small month_days_def)
    next
      case 2
      then show ?thesis
        using assms(3,4) by (simp add: days_before_small month_days_def)
    qed
    then show ?thesis
      using look by simp
  next
    case False
    then have m3: "3 \<le> m"
      by simp
    have "days_before False 3 \<le> days_before False m"
      using m3 by (rule days_before_mono)
    then have "60 \<le> ?p \<and> ?p = days_before False m + d"
      using assms(3) by (simp add: days_before_leap_shift [OF m3] days_before_small)
    then show ?thesis
      using look by simp
  qed
qed

lemma get_julian_day_valid:
  assumes "valid_date dt"
  shows "get_julian_day julian_df_adjusted dt = Inr (Num (real (dayofyear dt)))"
proof (cases "is_leap_year (year dt)")
  case True
  then show ?thesis
    using assms get_julian_day_leap [of "month dt" "day dt"]
    by (simp add: get_julian_day_def strftime_md_key valid_date_def days_in_month_def
        dayofyear_days_before)
next
  case False
  then show ?thesis
    using assms get_julian_day_nonleap [of "month dt" "day dt"]
    by (simp add: get_julian_day_def strftime_md_key valid_date_def days_in_month_def
        dayofyear_days_before)
qed

lemma julian_day_of_valid:
  assumes "valid_date dt"
  shows "julian_day_of dt = Inr (Num (real (dayofyear dt)))"
  using get_julian_day_valid [OF assms]
  by (simp add: julian_day_of_def create_julian_reference_ok and_then_def)

lemma dayofyear_bounds:
  assumes "valid_date dt"
  shows "1 \<le> dayofyear dt" and "dayofyear dt \<le> (if is_leap_year (year dt) then 366 else 365)"
proof -
  let ?l = "is_leap_year (year dt)"
  show "1 \<le> dayofyear dt"
    using assms by (simp add: dayofyear_days_before valid_date_def)
  have "1 \<le> month dt"
    using assms by (simp add: valid_date_def)
  then have "dayofyear dt \<le> days_before ?l (Suc (month dt))"
    using assms by (simp add: dayofyear_days_before valid_date_def days_before_Suc days_in_month_def)
  also have "\<dots> \<le> days_before ?l 13"
    using assms by (intro days_before_mono) (simp add: valid_date_def)
  finally show "dayofyear dt \<le> (if ?l then 366 else 365)"
    by (simp only: days_before_13)
qed

lemma nonleap_day_60:
  assumes "valid_date dt" "\<not> is_leap_year (year dt)"
  shows "dayofyear dt = 60 \<longleftrightarrow> month dt = 3 \<and> day dt = 1"
proof -
  let ?m = "month dt"
  have v: "1 \<le> ?m" "?m \<le> 12" "1 \<le> day dt" "day dt \<le> month_days False ?m"
    using assms by (simp_all add: valid_date_def days_in_month_def)
  have eq: "dayofyear dt = days_before False ?m + day dt"
    using assms(2) by (simp add: dayofyear_days_before)
  consider "?m = 1" | "?m = 2" | "?m = 3" | "4 \<le> ?m"
    using v(1) by linarith
  then show ?thesis
  proof cases
    case 1
    then show ?thesis
      using v by (simp add: eq days_before_small month_days_def)
  next
    case 2
    then show ?thesis
      using v by (simp add: eq days_before_small month_days_def)
  next
    case 3
    then show ?thesis
      using v by (simp add: eq days_before_small)
  next
    case 4
    then have "days_before False 4 \<le> days_before False ?m"
      by (rule days_before_mono)
    then show ?thesis
      using 4 v by (simp add: eq days_before_small)
  qed
qed

lemma julian_day_of_cong:
  assumes "month dt = month dt'" "day dt = day dt'"
    "is_leap_year (year dt) = is_leap_year (year dt')"
  shows "julian_day_of dt = julian_day_of dt'"
  using assms by (simp add: julian_day_of_def get_julian_day_def strftime_md_def)

lemma valid_date_simps:
  "valid_date \<lparr>year = y, month = m, day = d\<rparr>
     = (1 \<le> m \<and> m \<le> 12 \<and> 1 \<le> d \<and> d \<le> month_days (is_leap_year y) m)"
  by (simp add: valid_date_def days_in_month_def)

lemma dayofyear_simps:
  "dayofyear \<lparr>year = y, month = m, day = d\<rparr> = days_before (is_leap_year y) m + d"
  by (simp add: dayofyear_days_before)

lemma feb29_row:
  "lookup_julian julian_df_adjusted False ''02-29'' = Inr NaN"
  "''02-29'' \<in> set (map day_month julian_df_adjusted)"
proof -
  have "days_before True 2 + 29 - 1 < length (year_keys True)"
    and k: "year_keys True ! (days_before True 2 + 29 - 1) = md_key 2 29"
    by (rule year_keys_nth; simp add: month_days_def)+
  then have p: "59 < length (year_keys True)" and k': "year_keys True ! 59 = ''02-29''"
    by (simp_all add: days_before_small md_key_feb29)
  have "(59::nat) < 366"
    by simp
  from lookup_adjusted_nonleap [OF this k'] show "lookup_julian julian_df_adjusted False ''02-29'' = Inr NaN"
    by simp
  show "''02-29'' \<in> set (map day_month julian_df_adjusted)"
    unfolding adjusted_columns using nth_mem [OF p] k' by simp
qed

lemma nonleap_never_feb29:
  assumes "valid_date dt" "\<not> is_leap_year (year dt)"
  shows "strftime_md dt \<noteq> ''02-29''"
proof
  assume "strftime_md dt = ''02-29''"
  then have eq: "md_key (month dt) (day dt) = md_key 2 29"
    by (simp only: strftime_md_key md_key_feb29)
  have v: "month dt \<le> 12" "day dt \<le> month_days False (month dt)"
    using assms by (simp_all add: valid_date_def days_in_month_def)
  then have "month dt < 100" "day dt < 100"
    using month_days_bounds(2) [of False "month dt"] by simp_all
  from md_key_inj [OF this _ _ eq] have "month dt = 2" "day dt = 29"
    by simp_all
  then show False
    using v(2) by (simp add: month_days_def)
qed

lemma year_keys_mem:
  assumes "k \<in> set (year_keys leap)"
  shows "\<exists>m d. 1 \<le> m \<and> m \<le> 12 \<and> 1 \<le> d \<and> d \<le> 31 \<and> k = md_key m d"
proof -
  from assms obtain m where m: "1 \<le> m" "m < 13" and "k \<in> set (month_keys leap m)"
    by (auto simp: year_keys_def)
  then obtain d where "1 \<le> d" "d \<le> month_days leap m" "k = md_key m d"
    by (auto simp: month_keys_mem)
  then show ?thesis
    using m month_days_bounds(2) [of leap m] by (intro exI [of _ m] exI [of _ d]) simp
qed

lemma month_13_not_a_key: "''13-01'' \<notin> set (year_keys leap)"
proof
  assume "''13-01'' \<in> set (year_keys leap)"
  then obtain m d where md: "m \<le> 12" "d \<le> 31" "''13-01'' = md_key m d"
    using year_keys_mem by blast
  moreover have "md_key 13 1 = ''13-01''"
    by code_simp
  ultimately have "md_key 13 1 = md_key m d"
    by simp
  from md_key_inj [OF _ _ _ _ this] md(1,2) show False
    by simp
qed

text \<open>
  Claim C3, as stated: in a non-leap year the lookup would never return 60.  It returns 60
  for March 1.
\<close>

theorem nonleap_march_first_counterexample:
  "\<not> is_leap_year 2021
   \<and> valid_date \<lparr>year = 2021, month = 3, day = 1\<rparr>
   \<and> julian_day_of \<lparr>year = 2021, month = 3, day = 1\<rparr> = Inr (Num 60)"
proof -
  have v: "valid_date \<lparr>year = 2021, month = 3, day = 1\<rparr>"
    by (simp add: valid_date_simps is_leap_year_def month_days_def)
  have "dayofyear \<lparr>year = 2021, month = 3, day = 1\<rparr> = 60"
    by (simp add: dayofyear_simps is_leap_year_def days_before_small)
  then show ?thesis
    using julian_day_of_valid [OF v] v by (simp add: is_leap_year_def)
qed

text \<open>
  Claim C3, amended.  For every valid calendar date the lookup built from the julian
  reference table returns an integer in \<open>[1, 366]\<close> that depends only on the month, the day
  and the leap-ness of the year.  In a non-leap year it returns 60 for March 1 and for no
  other date, and it maps December 31 to 365.  In a leap year it maps February 29 to 60
  and December 31 to 366, and every date from March 1 on to one more than the non-leap
  columns give.
\<close>

theorem day_index_lookup:
  "(valid_date dt \<longrightarrow>
      (\<exists>k. julian_day_of dt = Inr (Num (real k)) \<and> 1 \<le> k \<and> k \<le> 366))
   \<and> (month dt = month dt' \<and> day dt = day dt'
        \<and> is_leap_year (year dt) = is_leap_year (year dt')
      \<longrightarrow> julian_day_of dt = julian_day_of dt')
   \<and> (valid_date dt \<and> \<not> is_leap_year (year dt) \<longrightarrow>
      (julian_day_of dt = Inr (Num 60)) = (month dt = 3 \<and> day dt = 1))
   \<and> (\<not> is_leap_year y \<longrightarrow>
      julian_day_of \<lparr>year = y, month = 12, day = 31\<rparr> = Inr (Num 365))
   \<and> (is_leap_year y \<longrightarrow>
      julian_day_of \<lparr>year = y, month = 2, day = 29\<rparr> = Inr (Num 60)
      \<and> julian_day_of \<lparr>year = y, month = 12, day = 31\<rparr> = Inr (Num 366))
   \<and> (is_leap_year y \<and> \<not> is_leap_year y' \<and> 3 \<le> m \<and> m \<le> 12 \<and> 1 \<le> d
        \<and> d \<le> month_days False m \<longrightarrow>
      (\<exists>k. julian_day_of \<lparr>year = y', month = m, day = d\<rparr> = Inr (Num (real k))
         \<and> julian_day_of \<lparr>year = y, month = m, day = d\<rparr> = Inr (Num (real (k + 1)))))"
proof (intro conjI impI)
  assume v: "valid_date dt"
  have "dayofyear dt \<le> 366"
    using dayofyear_bounds(2) [OF v] by (simp split: if_splits)
  then show "\<exists>k. julian_day_of dt = Inr (Num (real k)) \<and> 1 \<le> k \<and> k \<le> 366"
    using julian_day_of_valid [OF v] dayofyear_bounds(1) [OF v] by blast
next
  assume "month dt = month dt' \<and> day dt = day dt'
      \<and> is_leap_year (year dt) = is_leap_year (year dt')"
  then show "julian_day_of dt = julian_day_of dt'"
    by (intro julian_day_of_cong) simp_all
next
  assume a: "valid_date dt \<and> \<not> is_leap_year (year dt)"
  then have "julian_day_of dt = Inr (Num (real (dayofyear dt)))"
    by (intro julian_day_of_valid) simp
  then show "(julian_day_of dt = Inr (Num 60)) = (month dt = 3 \<and> day dt = 1)"
    using nonleap_day_60 [of dt] a by simp
next
  assume l: "\<not> is_leap_year y"
  let ?dt = "\<lparr>year = y, month = 12, day = 31\<rparr>"
  have "valid_date ?dt"
    by (simp add: valid_date_simps month_days_def)
  from julian_day_of_valid [OF this] show "julian_day_of ?dt = Inr (Num 365)"
    using l by (simp add: dayofyear_simps days_before_small)
next
  assume l: "is_leap_year y"
  let ?dt = "\<lparr>year = y, month = 2, day = 29\<rparr>"
  have "valid_date ?dt"
    using l by (simp add: valid_date_simps month_days_def)
  from julian_day_of_valid [OF this] show "julian_day_of ?dt = Inr (Num 60)"
    using l by (simp add: dayofyear_simps days_before_small)
next
  assume l: "is_leap_year y"
  let ?dt = "\<lparr>year = y, month = 12, day = 31\<rparr>"
  have "valid_date ?dt"
    by (simp add: valid_date_simps month_days_def)
  from julian_day_of_valid [OF this] show "julian_day_of ?dt = Inr (Num 366)"
    using l by (simp add: dayofyear_simps days_before_small)
next
  assume a: "is_leap_year y \<and> \<not> is_leap_year y' \<and> 3 \<le> m \<and> m \<le> 12 \<and> 1 \<le> d
      \<and> d \<le> month_days False m"
  let ?l = "\<lparr>year = y, month = m, day = d\<rparr>"
  let ?n = "\<lparr>year = y', month = m, day = d\<rparr>"
  have m3: "3 \<le> m"
    using a by simp
  have same: "month_days True m = month_days False m"
    using m3 by (simp add: month_days_def)
  have "valid_date ?l" "valid_date ?n"
    using a same by (simp_all add: valid_date_simps)
  then have "julian_day_of ?l = Inr (Num (real (dayofyear ?l)))"
    "julian_day_of ?n = Inr (Num (real (dayofyear ?n)))"
    by (simp_all only: julian_day_of_valid)
  moreover have "dayofyear ?l = dayofyear ?n + 1"
    using a by (simp add: dayofyear_simps days_before_leap_shift [OF m3])
  ultimately show "\<exists>k. julian_day_of ?n = Inr (Num (real k))
      \<and> julian_day_of ?l = Inr (Num (real (k + 1)))"
    by (intro exI [of _ "dayofyear ?n"]) (simp only: simp_thms)
qed

theorem day_index_lookup_witness:
  "julian_day_of \<lparr>year = 2021, month = 12, day = 31\<rparr> = Inr (Num 365)
   \<and> julian_day_of \<lparr>year = 2024, month = 2, day = 29\<rparr> = Inr (Num 60)
   \<and> julian_day_of \<lparr>year = 2024, month = 12, day = 31\<rparr> = Inr (Num 366)
   \<and> julian_day_of \<lparr>year = 2021, month = 3, day = 1\<rparr> = Inr (Num 60)
   \<and> julian_day_of \<lparr>year = 2021, month = 3, day = 1\<rparr>
       = julian_day_of \<lparr>year = 2023, month = 3, day = 1\<rparr>
   \<and> julian_day_of \<lparr>year = 2024, month = 3, day = 1\<rparr> = Inr (Num 61)"
proof -
  let ?a = "\<lparr>year = 2021, month = 3, day = 1\<rparr>"
  let ?b = "\<lparr>year = 2023, month = 3, day = 1\<rparr>"
  have n21: "\<not> is_leap_year 2021" and n23: "\<not> is_leap_year 2023" and l24: "is_leap_year 2024"
    by (simp_all add: is_leap_year_def)
  have va: "valid_date ?a"
    by (simp add: valid_date_simps month_days_def)
  note i1 = day_index_lookup [of ?a ?b 2021 2024 3 1]
  note i2 = day_index_lookup [of ?a ?b 2024 2021 3 1]
  have dec21: "julian_day_of \<lparr>year = 2021, month = 12, day = 31\<rparr> = Inr (Num 365)"
    using i1 n21 by blast
  have feb24: "julian_day_of \<lparr>year = 2024, month = 2, day = 29\<rparr> = Inr (Num 60)"
    and dec24: "julian_day_of \<lparr>year = 2024, month = 12, day = 31\<rparr> = Inr (Num 366)"
    using i2 l24 by blast+
  have "(julian_day_of ?a = Inr (Num 60)) = (month ?a = 3 \<and> day ?a = 1)"
    using i1 va n21 by simp
  then have mar21: "julian_day_of ?a = Inr (Num 60)"
    by simp
  have same: "julian_day_of ?a = julian_day_of ?b"
    using i1 n21 n23 by simp
  have "\<exists>k. julian_day_of ?a = Inr (Num (real k))
      \<and> julian_day_of \<lparr>year = 2024, month = 3, day = 1\<rparr> = Inr (Num (real (k + 1)))"
    using i2 l24 n21 by (simp add: month_days_def)
  then have mar24: "julian_day_of \<lparr>year = 2024, month = 3, day = 1\<rparr> = Inr (Num 61)"
    using mar21 by auto
  show ?thesis
    using dec21 feb24 dec24 mar21 same mar24 by simp
qed

text \<open>
  Claim C8, as stated: the non-leap column would have no entry for \<open>02-29\<close>, so that the
  lookup fails.  The table has a row whose \<open>day_month\<close> is \<open>02-29\<close>, with the index NaN, and
  the lookup returns that NaN without an error.
\<close>

theorem feb29_nonleap_lookup_counterexample:
  "lookup_in_reference False ''02-29'' = Inr NaN
   \<and> ''02-29'' \<in> set (map day_month julian_df_adjusted)"
  by (simp add: lookup_in_reference_def create_julian_reference_ok and_then_def feb29_row
      del: set_map)

text \<open>
  Claim C8, amended.  The non-leap column of the julian reference has a row for \<open>02-29\<close>
  whose day index is NaN: a lookup of \<open>02-29\<close> against it returns NaN, never a day index,
  and no valid date of a non-leap year has that month-day.  A month-day that is not in the
  selected column raises an \<open>IndexError\<close>, never a default value.
\<close>

theorem missing_month_day_is_error:
  "create_julian_reference = Inr julian_df_adjusted
   \<and> lookup_in_reference False ''02-29'' = Inr NaN
   \<and> (valid_date dt \<and> \<not> is_leap_year (year dt) \<longrightarrow> strftime_md dt \<noteq> ''02-29'')
   \<and> (dm \<notin> set (map day_month julian_df_adjusted) \<longrightarrow>
        lookup_in_reference False dm = Inl IndexError)
   \<and> (dm \<notin> set (map day_month_leap julian_df_adjusted) \<longrightarrow>
        lookup_in_reference True dm = Inl IndexError)"
  using nonleap_never_feb29 [of dt]
  by (simp add: lookup_in_reference_def create_julian_reference_ok and_then_def feb29_row
      lookup_missing del: set_map)

theorem missing_month_day_is_error_witness:
  "lookup_in_reference False ''13-01'' = Inl IndexError
   \<and> lookup_in_reference True ''13-01'' = Inl IndexError
   \<and> strftime_md \<lparr>year = 2021, month = 2, day = 28\<rparr> \<noteq> ''02-29''"
proof -
  let ?dt = "\<lparr>year = 2021, month = 2, day = 28\<rparr>"
  have n: "''13-01'' \<notin> set (map day_month julian_df_adjusted)"
    "''13-01'' \<notin> set (map day_month_leap julian_df_adjusted)"
    unfolding adjusted_columns by (rule month_13_not_a_key)+
  have v: "valid_date ?dt \<and> \<not> is_leap_year (year ?dt)"
    by (simp add: valid_date_simps month_days_def is_leap_year_def)
  show ?thesis
    using missing_month_day_is_error [of ?dt "''13-01''"] n v by blast
qed

section \<open>The update run\<close>

lemma traverse_length: "traverse f xs = Inr ys \<Longrightarrow> length ys = length xs"
proof (induction xs arbitrary: ys)
  case Nil
  then show ?case by simp
next
  case (Cons x xs)
  then show ?case
    by (auto simp: and_then_Inr_iff)
qed

lemma traverse_first_failure:
  assumes "\<forall>p \<in> set pre. \<exists>y. f p = Inr y" "f x = Inl e"
  shows "traverse f (pre @ x # post) = Inl e"
  using assms
proof (induction pre)
  case Nil
  then show ?case by (simp add: and_then_def)
next
  case (Cons p pre)
  then obtain y where "f p = Inr y"
    by auto
  moreover have "traverse f (pre @ x # post) = Inl e"
    using Cons by simp
  ultimately show ?case
    by (simp add: and_then_def)
qed

lemma traverse_failure_origin:
  "traverse f xs = Inl e \<Longrightarrow> \<exists>x \<in> set xs. f x = Inl e"
proof (induction xs)
  case Nil
  then show ?case by simp
next
  case (Cons x xs)
  show ?case
  proof (cases "f x")
    case (Inl e')
    then show ?thesis
      using Cons.prems by (simp add: and_then_def)
  next
    case (Inr y)
    then have "traverse f xs = Inl e"
      using Cons.prems by (cases "traverse f xs") (simp_all add: and_then_def)
    then show ?thesis
      using Cons.IH by auto
  qed
qed

lemma traverse_fails:
  assumes "x \<in> set xs" "f x = Inl e"
  shows "\<exists>e'. traverse f xs = Inl e'"
proof (cases "traverse f xs")
  case (Inl e')
  then show ?thesis by blast
next
  case (Inr ys)
  have "\<exists>y. f x = Inr y"
    using Inr assms(1)
  proof (induction xs arbitrary: ys)
    case Nil
    then show ?case by simp
  next
    case (Cons z zs)
    then show ?case
      by (auto simp: and_then_Inr_iff)
  qed
  then show ?thesis
    using assms(2) by simp
qed

lemma traverse_result_of:
  "traverse f xs = Inr ys \<Longrightarrow> x \<in> set xs \<Longrightarrow> \<exists>y \<in> set ys. f x = Inr y"
proof (induction xs arbitrary: ys)
  case Nil
  then show ?case by simp
next
  case (Cons z zs)
  then show ?case
    by (auto simp: and_then_Inr_iff)
qed

lemma traverse_keys:
  "traverse (\<lambda>k. and_then (g k) (\<lambda>a. Inr (k, a))) ks = Inr ys \<Longrightarrow> map fst ys = ks"
proof (induction ks arbitrary: ys)
  case Nil
  then show ?case by simp
next
  case (Cons k ks)
  then show ?case
    by (auto simp: and_then_Inr_iff)
qed

lemma remdups_snoc: "remdups (xs @ [x]) = remdups (filter (\<lambda>y. y \<noteq> x) xs) @ [x]"
  by (induction xs) auto

lemma unique_Cons: "unique (x # xs) = x # rev (remdups (filter (\<lambda>y. y \<noteq> x) (rev xs)))"
  by (simp add: unique_def remdups_snoc)

lemma set_unique: "set (unique xs) = set xs"
  by (simp add: unique_def)

lemma concat_nonempty_frames: "concat (filter (\<lambda>xs. xs \<noteq> []) xss) = concat xss"
  by (induction xss) simp_all

lemma rolling_average_length:
  "calculate_rolling_average df window = Inr roll \<Longrightarrow> length roll = length df"
  unfolding calculate_rolling_average_def by (drule traverse_length) simp

lemma update_combined:
  assumes "update_streamflow_data service sites historic today = Inr (Some res)"
  shows "\<exists>fetched roll.
      traverse (fetch_site_update service historic today) (unique sites) = Inr fetched
      \<and> length roll = length (concat fetched)
      \<and> combined_data res
          = historic @ map (\<lambda>(r, m). processed_row r m) (zip (concat fetched) roll)
      \<and> calculate_flow_statistics (combined_data res) = Inr (stats_table res)"
proof -
  from assms obtain fetched where f:
    "traverse (fetch_site_update service historic today) (unique sites) = Inr fetched"
    and rest: "(let new_data = filter (\<lambda>site_data. site_data \<noteq> []) fetched in
          if new_data = [] then Inr None
          else
            (let new_rows = concat new_data in
             and_then (calculate_rolling_average new_rows 7) (\<lambda>roll.
             let combined = historic @ map (\<lambda>(r, m). processed_row r m) (zip new_rows roll) in
             and_then (calculate_flow_statistics combined) (\<lambda>st.
             Inr (Some \<lparr>combined_data = combined, stats_table = st\<rparr>))))) = Inr (Some res)"
    unfolding update_streamflow_data_def and_then_Inr_iff by blast
  let ?rows = "concat fetched"
  from rest obtain roll st where roll: "calculate_rolling_average ?rows 7 = Inr roll"
    and st: "calculate_flow_statistics
        (historic @ map (\<lambda>(r, m). processed_row r m) (zip ?rows roll)) = Inr st"
    and res: "res = \<lparr>combined_data = historic @ map (\<lambda>(r, m). processed_row r m) (zip ?rows roll),
        stats_table = st\<rparr>"
    by (auto simp: Let_def concat_nonempty_frames and_then_Inr_iff split: if_splits)
  show ?thesis
    using f rolling_average_length [OF roll] st res by auto
qed

text \<open>The two example runs, evaluated.\<close>

lemma next_day_jan1: "next_day jan1 = jan2"
  by (simp add: next_day_def jan1_def jan2_def days_in_month_def month_days_def)

lemma dup_site_fetch:
  "fetch_site_update dup_service dup_history jan2 ''siteA''
     = Inr [\<lparr>f_site = ''siteA'', f_datetime = jan1, f_value = Num 7\<rparr>]"
  by (simp add: fetch_site_update_def last_date_def dup_history_def next_day_jan1
      fetch_nwis_data_def dup_service_def)

lemma dup_roll:
  "calculate_rolling_average [\<lparr>f_site = ''siteA'', f_datetime = jan1, f_value = Num 7\<rparr>] 7
     = Inr [Num 7]"
  by (simp add: calculate_rolling_average_def moving_average_def rolling_mean_def
      prep_values_def roll_mean_from.simps add_mean_def calc_mean_def and_then_def)

lemma dayofyear_jan1: "dayofyear jan1 = 1"
  by (simp add: jan1_def dayofyear_def)

lemma dup_statistics:
  "calculate_flow_statistics
     [\<lparr>site = ''siteA'', row_date = Some jan1, datetime = None, value = Num 5, julian = 1,
       yr = 2024, roll_mean = Num 7\<rparr>,
      \<lparr>site = ''siteA'', row_date = None, datetime = Some jan1, value = Num 7, julian = 1,
       yr = 2024, roll_mean = Num 7\<rparr>]
   = Inr [((''siteA'', 1),
           \<lparr>flow10 = Num 7, flow25 = Num 7, flow50 = Num 7, flow75 = Num 7, flow90 = Num 7,
            Nobs = 2, minv = Num 7, maxv = Num 7, startYr = 2024, endYr = 2024\<rparr>)]"
proof -
  have p: "percentile_exact [7, 7] 10 = 7" "percentile_exact [7, 7] 25 = 7"
    "percentile_exact [7, 7] 50 = 7" "percentile_exact [7, 7] 75 = 7"
    "percentile_exact [7, 7] 90 = 7"
    by (simp_all add: percentile_exact_def interp_def lerp_exact_def)
  have "agg_column [Num 7, Num 7] =
     Inr \<lparr>flow10 = Num 7, flow25 = Num 7, flow50 = Num 7, flow75 = Num 7, flow90 = Num 7,
          Nobs = 2, minv = Num 7, maxv = Num 7\<rparr>"
    using agg_column_small [of "[Num 7, Num 7]" 7 "[7]"] by (simp add: p)
  then show ?thesis
    by (simp add: calculate_flow_statistics_def unique_def site_flow_statistics_def
        groupby_agg_def and_then_def with_years_def agg.extend_def flow_stats.fields_def)
qed

lemma dup_run:
  "update_streamflow_data dup_service [''siteA''] dup_history jan2 =
     Inr (Some
       \<lparr>combined_data =
          [\<lparr>site = ''siteA'', row_date = Some jan1, datetime = None, value = Num 5,
            julian = 1, yr = 2024, roll_mean = Num 7\<rparr>,
           \<lparr>site = ''siteA'', row_date = None, datetime = Some jan1, value = Num 7,
            julian = 1, yr = 2024, roll_mean = Num 7\<rparr>],
        stats_table =
          [((''siteA'', 1),
            \<lparr>flow10 = Num 7, flow25 = Num 7, flow50 = Num 7, flow75 = Num 7, flow90 = Num 7,
            Nobs = 2, minv = Num 7, maxv = Num 7, startYr = 2024, endYr = 2024\<rparr>)]\<rparr>)"
proof -
  have u: "unique [''siteA''] = [''siteA'']"
    by (simp add: unique_def)
  have y: "year jan1 = 2024"
    by (simp add: jan1_def)
  have f: "traverse (fetch_site_update dup_service dup_history jan2) [''siteA'']
      = Inr [[\<lparr>f_site = ''siteA'', f_datetime = jan1, f_value = Num 7\<rparr>]]"
    by (simp add: dup_site_fetch and_then_def)
  show ?thesis
    unfolding update_streamflow_data_def u f
    by (simp add: dup_roll and_then_def processed_row_def dayofyear_jan1 y dup_history_def
        dup_statistics del: One_nat_def)
qed

lemma site_a_fails:
  "fetch_site_update failing_service two_site_history jan2 ''siteA''
     = Inl (UpstreamFetchError ''siteA'')"
  by (simp add: fetch_site_update_def last_date_def two_site_history_def
      fetch_nwis_data_def failing_service_def)

lemma site_b_succeeds:
  "fetch_site_update failing_service two_site_history jan2 ''siteB''
     = Inr [\<lparr>f_site = ''siteB'', f_datetime = jan2, f_value = Num 8\<rparr>]"
  by (simp add: fetch_site_update_def last_date_def two_site_history_def
      fetch_nwis_data_def failing_service_def)

lemma streamflow_first_failure:
  assumes "unique sites = pre @ s # post"
    "\<forall>p \<in> set pre. \<exists>rows. fetch_site_update service historic today p = Inr rows"
    "fetch_site_update service historic today s = Inl e"
  shows "update_streamflow_data service sites historic today = Inl e"
  using traverse_first_failure [of pre "fetch_site_update service historic today" s e post]
    assms
  by (simp add: update_streamflow_data_def and_then_def)

lemma streamflow_fetch_failure:
  assumes "s \<in> set sites" "fetch_site_update service historic today s = Inl e"
  shows "\<exists>s' e'. s' \<in> set sites \<and> fetch_site_update service historic today s' = Inl e'
      \<and> update_streamflow_data service sites historic today = Inl e'"
proof -
  have "s \<in> set (unique sites)"
    using assms(1) by (simp add: set_unique)
  with assms(2) obtain e' where t:
    "traverse (fetch_site_update service historic today) (unique sites) = Inl e'"
    using traverse_fails [of s "unique sites" "fetch_site_update service historic today" e]
    by blast
  from traverse_failure_origin [OF t] obtain s' where
    "s' \<in> set sites" "fetch_site_update service historic today s' = Inl e'"
    by (auto simp: set_unique)
  moreover have "update_streamflow_data service sites historic today = Inl e'"
    using t by (simp add: update_streamflow_data_def and_then_def)
  ultimately show ?thesis
    by blast
qed

lemma service_failure_is_fetch_failure:
  assumes "last_date historic s = Some d" "service s (next_day d) today = Inl e"
  shows "fetch_site_update service historic today s = Inl e"
  using assms by (simp add: fetch_site_update_def fetch_nwis_data_def)

lemma district_first_failure:
  assumes "filter (\<lambda>s. District s = district \<and> contains (site_NIDID s) ''TX''
        \<and> Loc_ID s \<noteq> ''2165051'') sites = pre @ st # post"
    "\<forall>p \<in> set pre. \<exists>rows. fetch_site p = Inr rows" "fetch_site st = Inl e"
  shows "fetch_district_data fetch_site sites district = Inl e"
proof -
  let ?f = "\<lambda>s. and_then (fetch_site s) (\<lambda>site_data. Inr (site_rows s district site_data))"
  have "\<forall>p \<in> set pre. \<exists>y. ?f p = Inr y"
    using assms(2) by (auto simp: and_then_def)
  moreover have "?f st = Inl e"
    using assms(3) by (simp add: and_then_def)
  ultimately have "traverse ?f (pre @ st # post) = Inl e"
    by (rule traverse_first_failure)
  then show ?thesis
    using assms(1) by (simp add: fetch_district_data_def and_then_def)
qed

lemma reservoir_first_failure:
  assumes "tx_districts = dpre @ district # dpost"
    "\<forall>p \<in> set dpre. \<exists>rows. fetch_district_data fetch_site sites p = Inr rows"
    "fetch_district_data fetch_site sites district = Inl e"
  shows "fetch_new_reservoir_data fetch_site sites = Inl e"
    and "update_reservoir_data fetch_site sites julian_ref old_data = Inl e"
proof -
  have "traverse (fetch_district_data fetch_site sites) (dpre @ district # dpost) = Inl e"
    using assms(2,3) by (rule traverse_first_failure)
  then show "fetch_new_reservoir_data fetch_site sites = Inl e"
    using assms(1) by (simp add: fetch_new_reservoir_data_def and_then_def)
  then show "update_reservoir_data fetch_site sites julian_ref old_data = Inl e"
    by (simp add: update_reservoir_data_def and_then_def)
qed

text \<open>
  Claim C9, as stated: when the fetch for one site fails, the other sites would still be
  processed and the run would complete.  With a service that fails for site A and answers
  for site B, the run ends with the exception of site A, although the fetch for site B
  alone succeeds.
\<close>

theorem one_failing_site_counterexample:
  "update_streamflow_data failing_service [''siteA'', ''siteB''] two_site_history jan2
     = Inl (UpstreamFetchError ''siteA'')
   \<and> fetch_site_update failing_service two_site_history jan2 ''siteB''
     = Inr [\<lparr>f_site = ''siteB'', f_datetime = jan2, f_value = Num 8\<rparr>]"
proof -
  have "unique [''siteA'', ''siteB''] = [] @ ''siteA'' # [''siteB'']"
    by (simp add: unique_def)
  then have "update_streamflow_data failing_service [''siteA'', ''siteB''] two_site_history jan2
      = Inl (UpstreamFetchError ''siteA'')"
    using site_a_fails by (intro streamflow_first_failure [of _ "[]"]) simp_all
  then show ?thesis
    using site_b_succeeds by simp
qed

text \<open>
  Claim C9, amended.  There is no partial-failure isolation: a failed fetch for one site
  aborts the whole run.  Every handler logs the exception and raises it again and the loops
  over the sites have no handler of their own, so

  \<^item> the streamflow update raises the exception of the first site, in the order of
    processing, whose fetch raises, whatever the fetches of the sites after it would
    return; when the fetch of any site raises, the update raises the exception of some
    site's fetch and yields no combined table and no statistics;

  \<^item> a failure of the network service for a site that has a last date in the history is a
    failure of that site's fetch, with the same exception;

  \<^item> the reservoir fetch of a district raises the exception of the first selected site of
    the district whose work raises, and the fetch of all districts, and with it the
    reservoir update, raises the exception of the first district whose fetch raises.
\<close>

theorem fetch_failure_aborts_run:
  "(unique sites = pre @ s # post
      \<and> (\<forall>p \<in> set pre. \<exists>rows. fetch_site_update service historic today p = Inr rows)
      \<and> fetch_site_update service historic today s = Inl e
      \<longrightarrow> update_streamflow_data service sites historic today = Inl e)
   \<and> (s \<in> set sites \<and> fetch_site_update service historic today s = Inl e
      \<longrightarrow> (\<exists>s' e'. s' \<in> set sites \<and> fetch_site_update service historic today s' = Inl e'
            \<and> update_streamflow_data service sites historic today = Inl e'))
   \<and> (last_date historic s = Some d \<and> service s (next_day d) today = Inl e
      \<longrightarrow> fetch_site_update service historic today s = Inl e)
   \<and> (filter (\<lambda>s. District s = district \<and> contains (site_NIDID s) ''TX''
                  \<and> Loc_ID s \<noteq> ''2165051'') rsites = rpre @ st # rpost
      \<and> (\<forall>p \<in> set rpre. \<exists>rows. fetch_site p = Inr rows)
      \<and> fetch_site st = Inl e
      \<longrightarrow> fetch_district_data fetch_site rsites district = Inl e)
   \<and> (tx_districts = dpre @ district # dpost
      \<and> (\<forall>p \<in> set dpre. \<exists>rows. fetch_district_data fetch_site rsites p = Inr rows)
      \<and> fetch_district_data fetch_site rsites district = Inl e
      \<longrightarrow> fetch_new_reservoir_data fetch_site rsites = Inl e
          \<and> update_reservoir_data fetch_site rsites julian_ref old_data = Inl e)"
proof (intro conjI impI)
  assume "unique sites = pre @ s # post
      \<and> (\<forall>p \<in> set pre. \<exists>rows. fetch_site_update service historic today p = Inr rows)
      \<and> fetch_site_update service historic today s = Inl e"
  then show "update_streamflow_data service sites historic today = Inl e"
    using streamflow_first_failure [of sites pre s post service historic today e] by blast
next
  assume "s \<in> set sites \<and> fetch_site_update service historic today s = Inl e"
  then show "\<exists>s' e'. s' \<in> set sites \<and> fetch_site_update service historic today s' = Inl e'
      \<and> update_streamflow_data service sites historic today = Inl e'"
    using streamflow_fetch_failure [of s sites service historic today e] by blast
next
  assume "last_date historic s = Some d \<and> service s (next_day d) today = Inl e"
  then show "fetch_site_update service historic today s = Inl e"
    using service_failure_is_fetch_failure by blast
next
  assume a: "filter (\<lambda>s. District s = district \<and> contains (site_NIDID s) ''TX''
        \<and> Loc_ID s \<noteq> ''2165051'') rsites = rpre @ st # rpost
      \<and> (\<forall>p \<in> set rpre. \<exists>rows. fetch_site p = Inr rows)
      \<and> fetch_site st = Inl e"
  show "fetch_district_data fetch_site rsites district = Inl e"
    using a by (intro district_first_failure [of district rsites rpre st rpost]) blast+
next
  assume a: "tx_districts = dpre @ district # dpost
      \<and> (\<forall>p \<in> set dpre. \<exists>rows. fetch_district_data fetch_site rsites p = Inr rows)
      \<and> fetch_district_data fetch_site rsites district = Inl e"
  show "fetch_new_reservoir_data fetch_site rsites = Inl e"
    using a by (intro reservoir_first_failure(1) [of dpre district dpost]) blast+
  show "update_reservoir_data fetch_site rsites julian_ref old_data = Inl e"
    using a by (intro reservoir_first_failure(2) [of dpre district dpost]) blast+
qed

theorem fetch_failure_aborts_run_witness:
  "update_streamflow_data failing_service [''siteB'', ''siteA'', ''siteB''] two_site_history
     jan2 = Inl (UpstreamFetchError ''siteA'')
   \<and> (\<exists>s' e'. s' \<in> set [''siteB'', ''siteA'', ''siteB'']
        \<and> fetch_site_update failing_service two_site_history jan2 s' = Inl e'
        \<and> update_streamflow_data failing_service [''siteB'', ''siteA'', ''siteB'']
            two_site_history jan2 = Inl e')
   \<and> fetch_site_update failing_service two_site_history jan2 ''siteA''
       = Inl (UpstreamFetchError ''siteA'')
   \<and> fetch_district_data failing_site_fetch [canyon_lake] ''SWF''
       = Inl (UpstreamFetchError ''1234'')
   \<and> fetch_new_reservoir_data failing_site_fetch [canyon_lake]
       = Inl (UpstreamFetchError ''1234'')
   \<and> update_reservoir_data failing_site_fetch [canyon_lake] julian_df_adjusted []
       = Inl (UpstreamFetchError ''1234'')"
proof -
  note inst = fetch_failure_aborts_run [where sites = "[''siteB'', ''siteA'', ''siteB'']"
      and pre = "[''siteB'']" and s = "''siteA''" and post = "[]"
      and historic = two_site_history and d = jan1 and service = failing_service
      and today = jan2 and e = "UpstreamFetchError ''siteA''"]
  note rinst = fetch_failure_aborts_run [where rsites = "[canyon_lake]" and rpre = "[]"
      and st = canyon_lake and rpost = "[]" and district = "''SWF''"
      and fetch_site = failing_site_fetch and e = "UpstreamFetchError ''1234''"
      and dpre = "[]" and dpost = "[''SWT'', ''SWG'']" and julian_ref = julian_df_adjusted
      and old_data = "[]"]
  have u: "unique [''siteB'', ''siteA'', ''siteB''] = [''siteB''] @ ''siteA'' # []"
    by (simp add: unique_def)
  have pre: "\<forall>p \<in> set [''siteB''].
      \<exists>rows. fetch_site_update failing_service two_site_history jan2 p = Inr rows"
    using site_b_succeeds by simp
  have last: "last_date two_site_history ''siteA'' = Some jan1"
    by (simp add: last_date_def two_site_history_def)
  have fail: "failing_service ''siteA'' (next_day jan1) jan2 = Inl (UpstreamFetchError ''siteA'')"
    by (simp add: failing_service_def)
  have c: "fetch_site_update failing_service two_site_history jan2 ''siteA''
      = Inl (UpstreamFetchError ''siteA'')"
    using inst last fail by blast
  have a: "update_streamflow_data failing_service [''siteB'', ''siteA'', ''siteB'']
      two_site_history jan2 = Inl (UpstreamFetchError ''siteA'')"
    using inst u pre c by blast
  have b: "\<exists>s' e'. s' \<in> set [''siteB'', ''siteA'', ''siteB'']
        \<and> fetch_site_update failing_service two_site_history jan2 s' = Inl e'
        \<and> update_streamflow_data failing_service [''siteB'', ''siteA'', ''siteB'']
            two_site_history jan2 = Inl e'"
    using inst c by simp
  have tx: "contains (site_NIDID canyon_lake) ''TX''"
    by code_simp
  have sel: "filter (\<lambda>s. District s = ''SWF'' \<and> contains (site_NIDID s) ''TX''
        \<and> Loc_ID s \<noteq> ''2165051'') [canyon_lake] = [] @ canyon_lake # []"
    using tx by (simp add: canyon_lake_def)
  have sf: "failing_site_fetch canyon_lake = Inl (UpstreamFetchError ''1234'')"
    by (simp add: canyon_lake_def failing_site_fetch_def)
  have d: "fetch_district_data failing_site_fetch [canyon_lake] ''SWF''
      = Inl (UpstreamFetchError ''1234'')"
    using rinst sel sf by simp
  have tx_d: "tx_districts = [] @ ''SWF'' # [''SWT'', ''SWG'']"
    by (simp add: tx_districts_def)
  have e: "fetch_new_reservoir_data failing_site_fetch [canyon_lake]
        = Inl (UpstreamFetchError ''1234'')
      \<and> update_reservoir_data failing_site_fetch [canyon_lake] julian_df_adjusted []
        = Inl (UpstreamFetchError ''1234'')"
    using rinst tx_d d by simp
  show ?thesis
    using a b c d e by blast
qed

section \<open>Merging new observations with the history\<close>

lemma reservoir_update_raises:
  "\<exists>e. update_reservoir_data fetch_site sites julian_ref old_data = Inl e"
proof (cases "fetch_new_reservoir_data fetch_site sites")
  case (Inl e)
  then show ?thesis
    by (simp add: update_reservoir_data_def and_then_def)
next
  case (Inr new_data)
  then show ?thesis
    by (cases "add_julian_dates julian_ref new_data")
      (simp_all add: update_reservoir_data_def and_then_def)
qed

text \<open>
  Claim C4, as stated: a (site, date) key that the history and the new observations share,
  with different values, would be left with one row, the newer.  For a history holding
  site A on 2024-01-01 with the value 5 and a fetched record of site A on 2024-01-01 with
  the value 7, the combined table holds both rows: the history row with its timestamp in
  the column \<open>date\<close>, the new row with its timestamp in the column \<open>datetime\<close>.
\<close>

theorem duplicate_key_counterexample:
  "combined_of (update_streamflow_data dup_service [''siteA''] dup_history jan2)
   = [\<lparr>site = ''siteA'', row_date = Some \<lparr>year = 2024, month = 1, day = 1\<rparr>,
       datetime = None, value = Num 5, julian = 1, yr = 2024, roll_mean = Num 7\<rparr>,
      \<lparr>site = ''siteA'', row_date = None,
       datetime = Some \<lparr>year = 2024, month = 1, day = 1\<rparr>, value = Num 7, julian = 1,
       yr = 2024, roll_mean = Num 7\<rparr>]"
  by (simp add: dup_run combined_of_def jan1_def)

text \<open>
  Claim C4, amended.  In the streamflow update, merging the freshly fetched observations
  with the persisted history is a concatenation without de-duplication: when the run
  reaches the statistics, the combined table handed to them is the history, unchanged and
  in its order, followed by one processed row for each fetched record, in the order of the
  fetch.  No row of either table is dropped or replaced, so a (site, date) key that both
  tables hold keeps the older and the newer value.
\<close>

theorem combined_data_is_concatenation:
  "update_streamflow_data service sites historic today = Inr (Some res) \<longrightarrow>
     (\<exists>fetched roll.
        traverse (fetch_site_update service historic today) (unique sites) = Inr fetched
        \<and> length roll = length (concat fetched)
        \<and> combined_data res
            = historic @ map (\<lambda>(r, m). processed_row r m) (zip (concat fetched) roll)
        \<and> calculate_flow_statistics (combined_data res) = Inr (stats_table res)
        \<and> length (combined_data res) = length historic + length (concat fetched)
        \<and> take (length historic) (combined_data res) = historic
        \<and> (\<forall>i < length (concat fetched).
              combined_data res ! (length historic + i)
                = processed_row (concat fetched ! i) (roll ! i)
              \<and> site (combined_data res ! (length historic + i)) = f_site (concat fetched ! i)
              \<and> datetime (combined_data res ! (length historic + i))
                  = Some (f_datetime (concat fetched ! i))
              \<and> value (combined_data res ! (length historic + i))
                  = f_value (concat fetched ! i)))"
proof
  assume "update_streamflow_data service sites historic today = Inr (Some res)"
  from update_combined [OF this] obtain fetched roll where
    f: "traverse (fetch_site_update service historic today) (unique sites) = Inr fetched"
    and l: "length roll = length (concat fetched)"
    and c: "combined_data res
        = historic @ map (\<lambda>(r, m). processed_row r m) (zip (concat fetched) roll)"
    and st: "calculate_flow_statistics (combined_data res) = Inr (stats_table res)"
    by blast
  have n: "length (combined_data res) = length historic + length (concat fetched)"
    using c l by simp
  have h: "take (length historic) (combined_data res) = historic"
    using c by simp
  have r: "\<forall>i < length (concat fetched).
      combined_data res ! (length historic + i) = processed_row (concat fetched ! i) (roll ! i)"
    using c l by (simp add: nth_append)
  have "\<forall>i < length (concat fetched).
      combined_data res ! (length historic + i)
        = processed_row (concat fetched ! i) (roll ! i)
      \<and> site (combined_data res ! (length historic + i)) = f_site (concat fetched ! i)
      \<and> datetime (combined_data res ! (length historic + i))
          = Some (f_datetime (concat fetched ! i))
      \<and> value (combined_data res ! (length historic + i)) = f_value (concat fetched ! i)"
    using r by (simp add: processed_row_def)
  then show "\<exists>fetched roll.
        traverse (fetch_site_update service historic today) (unique sites) = Inr fetched
        \<and> length roll = length (concat fetched)
        \<and> combined_data res
            = historic @ map (\<lambda>(r, m). processed_row r m) (zip (concat fetched) roll)
        \<and> calculate_flow_statistics (combined_data res) = Inr (stats_table res)
        \<and> length (combined_data res) = length historic + length (concat fetched)
        \<and> take (length historic) (combined_data res) = historic
        \<and> (\<forall>i < length (concat fetched).
              combined_data res ! (length historic + i)
                = processed_row (concat fetched ! i) (roll ! i)
              \<and> site (combined_data res ! (length historic + i)) = f_site (concat fetched ! i)
              \<and> datetime (combined_data res ! (length historic + i))
                  = Some (f_datetime (concat fetched ! i))
              \<and> value (combined_data res ! (length historic + i))
                  = f_value (concat fetched ! i))"
    using f l c st n h by blast
qed

theorem combined_data_is_concatenation_witness:
  "length (combined_of (update_streamflow_data dup_service [''siteA''] dup_history jan2)) = 2
   \<and> take 1 (combined_of (update_streamflow_data dup_service [''siteA''] dup_history jan2))
       = dup_history
   \<and> value (combined_of (update_streamflow_data dup_service [''siteA''] dup_history jan2) ! 1)
       = Num 7"
proof -
  obtain res where res: "update_streamflow_data dup_service [''siteA''] dup_history jan2
      = Inr (Some res)"
    using dup_run by blast
  from combined_data_is_concatenation [of dup_service "[''siteA'']" dup_history jan2 res] res
  obtain fetched roll where
    f: "traverse (fetch_site_update dup_service dup_history jan2) (unique [''siteA''])
        = Inr fetched"
    and n: "length (combined_data res) = length dup_history + length (concat fetched)"
    and h: "take (length dup_history) (combined_data res) = dup_history"
    and r: "\<forall>i < length (concat fetched).
        value (combined_data res ! (length dup_history + i)) = f_value (concat fetched ! i)"
    by blast
  have "traverse (fetch_site_update dup_service dup_history jan2) (unique [''siteA''])
      = Inr [[\<lparr>f_site = ''siteA'', f_datetime = jan1, f_value = Num 7\<rparr>]]"
    by (simp add: unique_def dup_site_fetch and_then_def)
  then have fetched: "fetched = [[\<lparr>f_site = ''siteA'', f_datetime = jan1, f_value = Num 7\<rparr>]]"
    using f by simp
  have len: "length dup_history = 1"
    by (simp add: dup_history_def)
  have "length (combined_data res) = 2"
    using n fetched len by simp
  moreover have "take 1 (combined_data res) = dup_history"
    using h len by simp
  moreover have "value (combined_data res ! 1) = Num 7"
    using r fetched len by simp
  ultimately show ?thesis
    by (simp add: res combined_of_def)
qed

section \<open>The julian day of the streamflow rows\<close>

lemma groupby_agg_keys:
  assumes "groupby_agg key col df = Inr stats" "r \<in> set df"
  shows "key r \<in> fst ` set stats"
proof -
  have "map fst stats = sort (remdups (map key df))"
    using assms(1) unfolding groupby_agg_def by (rule traverse_keys)
  then have "set (map fst stats) = key ` set df"
    by simp
  then show ?thesis
    using assms(2) by auto
qed

lemma flow_statistics_keys:
  assumes "calculate_flow_statistics df = Inr st" "r \<in> set df"
  shows "(site r, julian r) \<in> fst ` set st"
proof -
  from assms(1) obtain stats where t: "traverse (site_flow_statistics df) (unique (map site df))
      = Inr stats" and st: "st = concat stats"
    by (auto simp: calculate_flow_statistics_def and_then_Inr_iff split: if_splits)
  have "site r \<in> set (unique (map site df))"
    using assms(2) by (simp add: set_unique)
  from traverse_result_of [OF t this] obtain l where l: "l \<in> set stats"
    and sl: "site_flow_statistics df (site r) = Inr l"
    by blast
  let ?sd = "filter (\<lambda>x. site x = site r) df"
  have mem: "r \<in> set ?sd"
    using assms(2) by simp
  have "\<exists>g. groupby_agg (\<lambda>x. (site x, julian x)) roll_mean ?sd = Inr g
      \<and> (case map yr ?sd of [] \<Rightarrow> Inr []
        | y # ys \<Rightarrow> Inr (map (\<lambda>(k, a). (k, with_years (fold min ys y) (fold max ys y) a)) g))
      = (Inr l :: error + ((string \<times> nat) \<times> flow_stats) list)"
    using sl unfolding site_flow_statistics_def Let_def and_then_Inr_iff .
  then obtain g where g: "groupby_agg (\<lambda>x. (site x, julian x)) roll_mean ?sd = Inr g"
    and lg: "(case map yr ?sd of [] \<Rightarrow> Inr []
        | y # ys \<Rightarrow> Inr (map (\<lambda>(k, a). (k, with_years (fold min ys y) (fold max ys y) a)) g))
      = (Inr l :: error + ((string \<times> nat) \<times> flow_stats) list)"
    by blast
  have "?sd \<noteq> []"
    using mem by (metis empty_iff list.set(1))
  then have "map yr ?sd \<noteq> []"
    by simp
  then obtain y ys where "map yr ?sd = y # ys"
    by (cases "map yr ?sd") auto
  then have "l = map (\<lambda>(k, a). (k, with_years (fold min ys y) (fold max ys y) a)) g"
    using lg by simp
  then have "fst ` set l = fst ` set g"
    by (force simp: image_iff)
  moreover have "(site r, julian r) \<in> fst ` set g"
    using groupby_agg_keys [OF g mem] by simp
  ultimately have "(site r, julian r) \<in> fst ` set l"
    by simp
  then show ?thesis
    using l st by auto
qed

text \<open>
  Claim C10.  The julian day that the streamflow pipeline stores in the column \<open>julian\<close> of
  a new row, the ordinal day of the year of the row's \<open>datetime\<close>, equals for every valid
  calendar date the value that the lookup of the date's month-day in the constructed
  julian reference table returns (leap columns in leap years, the other columns
  otherwise); the table is built without error.  So it is for every new row of the
  combined table of an update run, and the statistics of the run have a band under the
  row's (site, julian) key.
\<close>

theorem dayofyear_matches_reference:
  "(valid_date (f_datetime r) \<longrightarrow>
      create_julian_reference = Inr julian_df_adjusted
      \<and> get_julian_day julian_df_adjusted (f_datetime r)
          = Inr (Num (real (julian (processed_row r m))))
      \<and> julian_day_of (f_datetime r) = Inr (Num (real (julian (processed_row r m)))))
   \<and> (update_streamflow_data service sites historic today = Inr (Some res) \<longrightarrow>
      (\<forall>i. length historic \<le> i \<and> i < length (combined_data res) \<longrightarrow>
         (\<exists>t. datetime (combined_data res ! i) = Some t
            \<and> julian (combined_data res ! i) = dayofyear t
            \<and> (valid_date t \<longrightarrow>
                 get_julian_day julian_df_adjusted t
                   = Inr (Num (real (julian (combined_data res ! i)))))
            \<and> (\<exists>a. ((site (combined_data res ! i), julian (combined_data res ! i)), a)
                   \<in> set (stats_table res)))))"
proof (intro conjI impI allI)
  assume v: "valid_date (f_datetime r)"
  show "create_julian_reference = Inr julian_df_adjusted"
    by (rule create_julian_reference_ok)
  show "get_julian_day julian_df_adjusted (f_datetime r)
      = Inr (Num (real (julian (processed_row r m))))"
    using get_julian_day_valid [OF v] by (simp add: processed_row_def)
  show "julian_day_of (f_datetime r) = Inr (Num (real (julian (processed_row r m))))"
    using julian_day_of_valid [OF v] by (simp add: processed_row_def)
next
  fix i
  assume u: "update_streamflow_data service sites historic today = Inr (Some res)"
    and i: "length historic \<le> i \<and> i < length (combined_data res)"
  from update_combined [OF u] obtain fetched roll where
    l: "length roll = length (concat fetched)"
    and c: "combined_data res
        = historic @ map (\<lambda>(r, m). processed_row r m) (zip (concat fetched) roll)"
    and st: "calculate_flow_statistics (combined_data res) = Inr (stats_table res)"
    by blast
  let ?row = "combined_data res ! i"
  let ?j = "i - length historic"
  have j: "?j < length (concat fetched)"
    using i c l by auto
  have row: "?row = processed_row (concat fetched ! ?j) (roll ! ?j)"
    using i j c l by (simp add: nth_append)
  let ?t = "f_datetime (concat fetched ! ?j)"
  have d: "datetime ?row = Some ?t" and jd: "julian ?row = dayofyear ?t"
    by (simp_all add: row processed_row_def)
  have lk: "valid_date ?t \<longrightarrow>
      get_julian_day julian_df_adjusted ?t = Inr (Num (real (julian ?row)))"
    using get_julian_day_valid [of ?t] jd by simp
  have "?row \<in> set (combined_data res)"
    using i by simp
  from flow_statistics_keys [OF st this]
  have k: "\<exists>a. ((site ?row, julian ?row), a) \<in> set (stats_table res)"
    by force
  show "\<exists>t. datetime ?row = Some t \<and> julian ?row = dayofyear t
      \<and> (valid_date t \<longrightarrow>
           get_julian_day julian_df_adjusted t = Inr (Num (real (julian ?row))))
      \<and> (\<exists>a. ((site ?row, julian ?row), a) \<in> set (stats_table res))"
    using d jd lk k by blast
qed

theorem dayofyear_matches_reference_witness:
  "valid_date \<lparr>year = 2024, month = 12, day = 31\<rparr>
   \<and> julian (processed_row
        \<lparr>f_site = ''siteA'', f_datetime = \<lparr>year = 2024, month = 12, day = 31\<rparr>,
         f_value = Num 8\<rparr> (Num 8)) = 366
   \<and> get_julian_day julian_df_adjusted \<lparr>year = 2024, month = 12, day = 31\<rparr> = Inr (Num 366)
   \<and> julian (combined_of (update_streamflow_data dup_service [''siteA''] dup_history jan2) ! 1)
       = 1
   \<and> get_julian_day julian_df_adjusted jan1 = Inr (Num 1)"
proof -
  let ?r = "\<lparr>f_site = ''siteA'', f_datetime = \<lparr>year = 2024, month = 12, day = 31\<rparr>,
      f_value = Num 8\<rparr>"
  let ?res = "\<lparr>combined_data =
          [\<lparr>site = ''siteA'', row_date = Some jan1, datetime = None, value = Num 5,
            julian = 1, yr = 2024, roll_mean = Num 7\<rparr>,
           \<lparr>site = ''siteA'', row_date = None, datetime = Some jan1, value = Num 7,
            julian = 1, yr = 2024, roll_mean = Num 7\<rparr>],
        stats_table =
          [((''siteA'', 1),
            \<lparr>flow10 = Num 7, flow25 = Num 7, flow50 = Num 7, flow75 = Num 7,
             flow90 = Num 7, Nobs = 2, minv = Num 7, maxv = Num 7, startYr = 2024,
             endYr = 2024\<rparr>)]\<rparr>"
  note inst = dayofyear_matches_reference [of ?r "Num 8" dup_service "[''siteA'']"
      dup_history jan2 ?res]
  have v: "valid_date \<lparr>year = 2024, month = 12, day = 31\<rparr>"
    by (simp add: valid_date_simps is_leap_year_def month_days_def)
  have d: "dayofyear \<lparr>year = 2024, month = 12, day = 31\<rparr> = 366"
    by (simp add: dayofyear_simps is_leap_year_def days_before_small)
  have j: "julian (processed_row ?r (Num 8)) = 366"
    using d by (simp add: processed_row_def)
  have g: "get_julian_day julian_df_adjusted \<lparr>year = 2024, month = 12, day = 31\<rparr>
      = Inr (Num 366)"
    using inst [THEN conjunct1] v j by simp
  have v1: "valid_date jan1"
    by (simp add: jan1_def valid_date_simps is_leap_year_def month_days_def)
  have len: "length dup_history = 1"
    by (simp add: dup_history_def)
  have "\<exists>t. datetime (combined_data ?res ! 1) = Some t
      \<and> julian (combined_data ?res ! 1) = dayofyear t
      \<and> (valid_date t \<longrightarrow>
           get_julian_day julian_df_adjusted t = Inr (Num (real (julian (combined_data ?res ! 1)))))
      \<and> (\<exists>a. ((site (combined_data ?res ! 1), julian (combined_data ?res ! 1)), a)
             \<in> set (stats_table ?res))"
    using inst [THEN conjunct2, rule_format, of 1] dup_run len by simp
  then have g1: "get_julian_day julian_df_adjusted jan1 = Inr (Num 1)"
    using v1 by simp
  show ?thesis
    using v j g g1 by (simp add: dup_run combined_of_def)
qed

end
